theory Spec2Isabelle
  imports Main
begin

section \<open>Server: the router of the image API\<close>

text \<open>
  The router relays files to the image host with axios.  An awaited axios call either
  resolves with a response, whose \<open>status\<close> the handlers read, or rejects with an error.
  The handlers read a rejection only through \<open>error?.response?.status\<close>, which is
  \<open>undefined\<close> when the error, its response or the status is absent: a rejection is
  modelled by that optional status.
\<close>

datatype 'a axios_result =
    Resolved nat 'a
  | Rejected "nat option"

text \<open>
  An image object of the host.  The router reads and writes only its \<open>link\<close>; the other
  properties (name and value) are carried along as they come.
\<close>

record image =
  link :: string
  others :: "(string \<times> string) list"

text \<open>What a handler sends: \<open>res.status(code).send(body)\<close>.\<close>

datatype body = Text string | Image image | Images "image list"

datatype response = Response nat body

fun code_of :: "response \<Rightarrow> nat" where
  "code_of (Response c b) = c"

subsection \<open>GET and DELETE /image/:imageid\<close>

definition get_image :: "image axios_result \<Rightarrow> response" where
  "get_image r =
     (case r of
        Resolved s d \<Rightarrow> Response 200 (Image d)
      | Rejected st \<Rightarrow>
          if st = Some 404 then Response 404 (Text ''Image not found.'')
          else Response 500 (Text ''Failed to fetch image from Imgur.''))"

definition delete_image :: "unit axios_result \<Rightarrow> response" where
  "delete_image r =
     (case r of
        Resolved s d \<Rightarrow> Response 200 (Text ''success'')
      | Rejected st \<Rightarrow>
          if st = Some 404 then Response 404 (Text ''Image not found.'')
          else Response 500 (Text ''Failed to delete image from Imgur.''))"

subsection \<open>POST /images\<close>

text \<open>
  A file as multer hands it to the handler, and the tracker the handler fills for it.
  The tracker's \<open>status\<close> is absent until the outbound call has answered; its
  property \<open>file\<close> is \<open>file_rt\<close> here.
\<close>

record multer_file =
  originalname :: string
  mimetype :: string
  buffer :: string

record responseTracker =
  file_rt :: string
  success :: bool
  typeError :: bool
  status :: "nat option"

text \<open>
  The form posted to the host: \<open>image\<close> is \<open>file.buffer.toString("base64")\<close>, kept as
  the bytes under a tag that stands for their encoding, and \<open>title\<close> is the file's name.
\<close>

datatype base64 = Base64 string

datatype formData = FormData base64 string

definition allowed_types :: "string list" where
  "allowed_types =
     [''image/jpeg'', ''image/jpg'', ''image/gif'', ''image/png'', ''image/apng'', ''image/tiff'']"

text \<open>
  The body of \<open>req.files.map(async (file) => ...)\<close> for one file.  The file comes with the
  answer its outbound call gets if the call is made; the result is the tracker and the
  outbound calls that were made (none or one \<open>axios.post\<close>).
\<close>

definition upload_file :: "multer_file \<times> unit axios_result \<Rightarrow> responseTracker \<times> formData list" where
  "upload_file fr =
     (case fr of (f, r) \<Rightarrow>
        let form = FormData (Base64 (buffer f)) (originalname f);
            responseTracker = \<lparr>file_rt = originalname f, success = False, typeError = False,
                                status = None\<rparr>
        in if mimetype f \<notin> set allowed_types then (responseTracker\<lparr>typeError := True\<rparr>, [])
           else (case r of
                   Resolved s d \<Rightarrow>
                     (responseTracker\<lparr>status := Some s, success := (s = 200)\<rparr>, [form])
                 | Rejected st \<Rightarrow>
                     (responseTracker\<lparr>status := Some (case st of None \<Rightarrow> 500 | Some c \<Rightarrow> c)\<rparr>,
                      [form])))"

text \<open>\<open>Promise.all\<close> keeps the order of the files; the calls start in that order too.\<close>

definition responses_of :: "(multer_file \<times> unit axios_result) list \<Rightarrow> responseTracker list" where
  "responses_of files = map (\<lambda>fr. fst (upload_file fr)) files"

definition outbound_calls :: "(multer_file \<times> unit axios_result) list \<Rightarrow> formData list" where
  "outbound_calls files = concat (map (\<lambda>fr. snd (upload_file fr)) files)"

text \<open>
  The handler.  \<open>req.files\<close> is absent (or no array) or a list of files; the result is
  the response sent and the outbound calls made.
\<close>

definition post_images ::
  "(multer_file \<times> unit axios_result) list option \<Rightarrow> response \<times> formData list" where
  "post_images req_files =
     (case req_files of
        None \<Rightarrow>
          (Response 400 (Text ''No files attached or files are incorrectly formatted.''), [])
      | Some files \<Rightarrow>
          if files = [] then
            (Response 400 (Text ''No files attached or files are incorrectly formatted.''), [])
          else
            let responses = responses_of files
            in (if list_all success responses then Response 200 (Text ''success'')
                else if list_ex (\<lambda>response. status response = Some 500) responses
                  then Response 500 (Text ''Failed to upload images to Imgur.'')
                else Response 400 (Text ''Failed to upload some images to Imgur. Ensure that all files uploaded are of the correct size and type.''),
                outbound_calls files))"

text \<open>
  The statuses with which an axios call resolves: axios rejects every other status
  (its default \<open>validateStatus\<close>, which the router does not override).
\<close>

definition success_status :: "nat \<Rightarrow> bool" where
  "success_status s = (200 \<le> s \<and> s < 300)"

subsection \<open>GET /images\<close>

definition thumbnailSize :: string where
  "thumbnailSize = ''m''"

text \<open>The class \<open>[a-z]\<close>.\<close>

definition lower :: "char \<Rightarrow> bool" where
  "lower c = (let n = (of_char c :: nat) in 97 \<le> n \<and> n \<le> 122)"

text \<open>
  \<open>link.replace(/(\.[a-z]+)$/, `${thumbnailSize}$1`)\<close>: the pattern is tried at each
  position from the left; it matches where a dot is followed by one or more lower-case
  letters up to the end of the string, and the first match is replaced by the size token
  followed by the match.
\<close>

fun replace_extension :: "string \<Rightarrow> string" where
  "replace_extension [] = []"
| "replace_extension (c # cs) =
     (if c = CHR ''.'' \<and> cs \<noteq> [] \<and> list_all lower cs then thumbnailSize @ c # cs
      else c # replace_extension cs)"

definition get_images :: "image list axios_result \<Rightarrow> response" where
  "get_images r =
     (case r of
        Resolved s allImages \<Rightarrow>
          Response 200
            (Images (map (\<lambda>image. image\<lparr>link := replace_extension (link image)\<rparr>) allImages))
      | Rejected st \<Rightarrow> Response 500 (Text ''Failed to fetch images from Imgur.''))"

section \<open>Client: the upload console\<close>

text \<open>
  A browser \<open>File\<close> (its \<open>size\<close> is \<open>size_f\<close> here) and an entry of the state
  \<open>selectedFiles\<close> (its \<open>id\<close> and \<open>file\<close> are \<open>id_sf\<close> and \<open>file_sf\<close> here).
\<close>

record file_obj =
  name :: string
  type :: string
  size_f :: nat
  content :: string

record selectedFile =
  id_sf :: string
  file_sf :: file_obj
  uploaded :: bool
  uploadFailed :: bool

text \<open>The state of the component.\<close>

record console =
  selectedFiles :: "selectedFile list"
  isUploading :: bool
  uploadProgressCount :: int

definition initial :: console where
  "initial = \<lparr>selectedFiles = [], isUploading = False, uploadProgressCount = 0\<rparr>"

definition MAX_FILE_COUNT :: nat where
  "MAX_FILE_COUNT = 20"

definition MAX_FILE_SIZE :: nat where
  "MAX_FILE_SIZE = 20 * 1024 * 1024"

definition upper :: "char \<Rightarrow> bool" where
  "upper c = (let n = (of_char c :: nat) in 65 \<le> n \<and> n \<le> 90)"

definition digit :: "char \<Rightarrow> bool" where
  "digit c = (let n = (of_char c :: nat) in 48 \<le> n \<and> n \<le> 57)"

text \<open>\<open>NEW_NAME_REGEX.test(s)\<close> for the pattern \<open>/^[a-zA-Z0-9]{1,20}$/\<close>.\<close>

definition NEW_NAME_REGEX :: "string \<Rightarrow> bool" where
  "NEW_NAME_REGEX s =
     (1 \<le> length s \<and> length s \<le> 20 \<and> list_all (\<lambda>c. lower c \<or> upper c \<or> digit c) s)"

subsection \<open>Selecting files\<close>

text \<open>\<open>names.join(", ")\<close>.\<close>

fun join :: "string list \<Rightarrow> string" where
  "join [] = []"
| "join [x] = x"
| "join (x # y # ys) = x @ '', '' @ join (y # ys)"

text \<open>
  The text of the alert for files above the size limit; \<open>20.00\<close> is
  \<open>(MAX_FILE_SIZE / 1024 / 1024).toFixed(2)\<close>.
\<close>

definition too_large_text :: "string list \<Rightarrow> bool \<Rightarrow> string" where
  "too_large_text invalidFileNames some_added =
     ''The following file'' @ (if length invalidFileNames > 1 then ''s are'' else '' is'')
     @ '' too large:'' @ [CHR 0x0A, CHR 0x0A] @ join invalidFileNames @ ''.''
     @ [CHR 0x0A, CHR 0x0A] @ ''The limit is 20.00 MB.''
     @ (if some_added then '' The remaining files have been added.'' else [])"

text \<open>
  \<open>handleFileChange\<close>.  \<open>uuidv4\<close> yields the identifiers: the k-th valid file gets
  \<open>uuidv4 k\<close>.  The result is the new state and the alert shown, if any.
\<close>

definition handleFileChange ::
  "(nat \<Rightarrow> string) \<Rightarrow> file_obj list \<Rightarrow> console \<Rightarrow> console \<times> string option" where
  "handleFileChange uuidv4 files st =
     (if length files + length (selectedFiles st) > MAX_FILE_COUNT
      then (st, Some ''You can only upload a total of 20 files at once.'')
      else
        let invalidFileNames = map name (filter (\<lambda>f. size_f f > MAX_FILE_SIZE) files);
            validFiles = filter (\<lambda>f. \<not> size_f f > MAX_FILE_SIZE) files;
            shown = (if length invalidFileNames > 0
                     then Some (too_large_text invalidFileNames
                                  (length files > length invalidFileNames))
                     else None);
            added = map (\<lambda>(k, f). \<lparr>id_sf = uuidv4 k, file_sf = f, uploaded = False,
                                    uploadFailed = False\<rparr>)
                      (enumerate 0 validFiles)
        in (st\<lparr>selectedFiles := selectedFiles st @ added\<rparr>, shown))"

definition handleReset :: "console \<Rightarrow> console" where
  "handleReset st = st\<lparr>selectedFiles := []\<rparr>"

definition handleDelete :: "string \<Rightarrow> console \<Rightarrow> console" where
  "handleDelete i st = st\<lparr>selectedFiles := filter (\<lambda>f. id_sf f \<noteq> i) (selectedFiles st)\<rparr>"

subsection \<open>Renaming a file\<close>

text \<open>\<open>name.split(".")\<close>; its last element is what \<open>pop()\<close> returns.\<close>

fun split_dot :: "string \<Rightarrow> string list" where
  "split_dot [] = [[]]"
| "split_dot (c # cs) =
     (if c = CHR ''.'' then [] # split_dot cs
      else (case split_dot cs of [] \<Rightarrow> [[c]] | p # ps \<Rightarrow> (c # p) # ps))"

datatype js_error = TypeError

text \<open>
  \<open>handleRename\<close>.  The second argument is what \<open>prompt\<close> returned (\<open>null\<close> when the
  dialog is cancelled).  Reading \<open>.file\<close> of a missing entry throws, before anything
  else happens.  \<open>new File([file.file], newFileName, {type: file.file.type})\<close> keeps the
  content and the type and takes the new name.
\<close>

definition handleRename ::
  "string \<Rightarrow> string option \<Rightarrow> console \<Rightarrow> js_error + (console \<times> string option)" where
  "handleRename i newName st =
     (case find (\<lambda>f. id_sf f = i) (selectedFiles st) of
        None \<Rightarrow> Inl TypeError
      | Some target \<Rightarrow>
          let fileExtension = last (split_dot (name (file_sf target)))
          in (case newName of
                None \<Rightarrow> Inr (st, Some ''You must enter a name for the file. Please try again.'')
              | Some n \<Rightarrow>
                  if n = [] then
                    Inr (st, Some ''You must enter a name for the file. Please try again.'')
                  else if \<not> NEW_NAME_REGEX n then
                    Inr (st, Some ''Names must be alphanumeric and under 20 characters. Do not include the file extension.'')
                  else
                    Inr (st\<lparr>selectedFiles :=
                           map (\<lambda>f. if id_sf f = i
                                     then f\<lparr>file_sf := (file_sf f)\<lparr>name := n @ ''.'' @ fileExtension\<rparr>\<rparr>
                                     else f)
                             (selectedFiles st)\<rparr>,
                         None)))"

subsection \<open>Submitting\<close>

text \<open>
  What the \<open>fetch\<close> of one file does when it settles: it resolves with a response, of
  which the handler reads \<open>ok\<close>, or it rejects.
\<close>

datatype fetch_result = Fetched bool | Threw

text \<open>
  While a submission runs, the handler works on the objects of the array \<open>selectedFiles\<close>
  that it captured.  They are distinct objects, so the list itself is their store, and the
  position of an object in the array is its address.  \<open>settle\<close> is what happens when the
  request of the object at address \<open>i\<close> settles: on a response \<open>fileData.uploaded\<close> is
  set to \<open>response.ok\<close>, and on either path the progress count is decremented.
\<close>

definition settle ::
  "nat \<times> fetch_result \<Rightarrow> selectedFile list \<times> int \<Rightarrow> selectedFile list \<times> int" where
  "settle ev s =
     (case ev of (i, r) \<Rightarrow>
        case s of (heap, prevCount) \<Rightarrow>
          (case r of
             Fetched ok \<Rightarrow> (heap[i := (heap ! i)\<lparr>uploaded := ok\<rparr>], prevCount - 1)
           | Threw \<Rightarrow> (heap, prevCount - 1)))"

fun settle_all ::
  "(nat \<times> fetch_result) list \<Rightarrow> selectedFile list \<times> int \<Rightarrow> selectedFile list \<times> int" where
  "settle_all [] s = s"
| "settle_all (ev # evs) s = settle_all evs (settle ev s)"

text \<open>What the request of an object leaves of it when it settles with \<open>r\<close>.\<close>

definition settled :: "fetch_result \<Rightarrow> selectedFile \<Rightarrow> selectedFile" where
  "settled r fileData = (case r of Fetched ok \<Rightarrow> fileData\<lparr>uploaded := ok\<rparr> | Threw \<Rightarrow> fileData)"

text \<open>The values the progress count takes, one after each request that settles.\<close>

fun progress_counts :: "(nat \<times> fetch_result) list \<Rightarrow> selectedFile list \<times> int \<Rightarrow> int list" where
  "progress_counts [] s = []"
| "progress_counts (ev # evs) s = snd (settle ev s) # progress_counts evs (settle ev s)"

text \<open>
  After \<open>Promise.all\<close>: \<open>filesToRetain\<close> holds the addresses of the objects that are not
  \<open>uploaded\<close>; \<open>forEach\<close> sets \<open>uploadFailed\<close> on each of them, in the store.
\<close>

definition filesToRetain :: "selectedFile list \<Rightarrow> nat list" where
  "filesToRetain heap = filter (\<lambda>i. \<not> uploaded (heap ! i)) [0..<length heap]"

definition mark_failed :: "nat list \<Rightarrow> selectedFile list \<Rightarrow> selectedFile list" where
  "mark_failed refs heap = fold (\<lambda>i h. h[i := (h ! i)\<lparr>uploadFailed := True\<rparr>]) refs heap"

record submit_result =
  console_after :: console
  onUploadSuccess_called :: bool
  alert_shown :: "string option"
  counts :: "int list"

text \<open>
  \<open>handleSubmit\<close>.  \<open>fetch i\<close> is how the request of the i-th file settles, and \<open>order\<close>
  lists the requests in the order in which they settle.  \<open>await Promise.all\<close> returns once
  every request has settled; when some request never settles the handler never gets past
  it, which is the result \<open>None\<close>.  \<open>counts\<close> are the values of the progress count, from
  the one set at the start.
\<close>

definition handleSubmit :: "(nat \<Rightarrow> fetch_result) \<Rightarrow> nat list \<Rightarrow> console \<Rightarrow> submit_result option" where
  "handleSubmit fetch order st =
     (let heap0 = selectedFiles st;
          count0 = int (length heap0);
          evs = map (\<lambda>i. (i, fetch i)) order
      in if sort order \<noteq> [0..<length heap0] then None
         else
           let s1 = settle_all evs (heap0, count0);
               heap1 = fst s1;
               called = list_ex uploaded heap1;
               refs = filesToRetain heap1;
               heap2 = mark_failed refs heap1;
               shown = (if list_ex uploadFailed heap2
                        then Some ''Some files failed to upload. They have been retained in your selection.''
                        else None)
           in Some \<lparr>console_after =
                      \<lparr>selectedFiles = map (\<lambda>i. heap2 ! i) refs, isUploading = False,
                       uploadProgressCount = snd s1\<rparr>,
                    onUploadSuccess_called = called,
                    alert_shown = shown,
                    counts = count0 # progress_counts evs (heap0, count0)\<rparr>)"

subsection \<open>Runs of the console\<close>

text \<open>
  The states in which the console is at rest, with no submission in flight: these are the
  states in which a submission starts.  Here a submission is one event, from the click
  to the end of \<open>handleSubmit\<close>: the select, reset and upload buttons are disabled
  while it runs, and what a rename or a delete does in the meantime is overwritten by
  \<open>setSelectedFiles(filesToRetain)\<close> at its end.  A handler that throws leaves the state
  as it is; a submission that never completes ends the run.  The states that the console
  goes through while requests are in flight are those of the pages, below.
\<close>

datatype event =
    FileChange "nat \<Rightarrow> string" "file_obj list"
  | Rename string "string option"
  | Delete string
  | Reset
  | Submit "nat \<Rightarrow> fetch_result" "nat list"

fun step :: "event \<Rightarrow> console \<Rightarrow> console option" where
  "step (FileChange uuidv4 files) st = Some (fst (handleFileChange uuidv4 files st))"
| "step (Rename i newName) st =
     Some (case handleRename i newName st of Inl e \<Rightarrow> st | Inr (st', shown) \<Rightarrow> st')"
| "step (Delete i) st = Some (handleDelete i st)"
| "step Reset st = Some (handleReset st)"
| "step (Submit fetch order) st = map_option console_after (handleSubmit fetch order st)"

fun run :: "event list \<Rightarrow> console \<Rightarrow> console option" where
  "run [] st = Some st"
| "run (e # es) st = (case step e st of None \<Rightarrow> None | Some st' \<Rightarrow> run es st')"

text \<open>The invariant of the runs.\<close>

definition no_uploaded :: "console \<Rightarrow> bool" where
  "no_uploaded st = (\<forall>f \<in> set (selectedFiles st). \<not> uploaded f)"

subsection \<open>The console while a submission is in flight\<close>

text \<open>
  The entries of \<open>selectedFiles\<close> are objects.  \<open>handleSubmit\<close> changes them in place
  as its requests settle, and the array it captured shares them with the state; the
  rename and delete buttons stay enabled meanwhile.  A page is the console with its
  objects in a store: the store is a list, the address of an object is its position, and
  a new object goes to the end; the state \<open>selectedFiles\<close> and the captured array hold
  addresses.  A submission in flight is the array that \<open>handleSubmit\<close> captured and the
  positions in it whose request has not settled; \<open>isUploading\<close> is true exactly while
  there is one.
\<close>

record submission =
  captured :: "nat list"
  pending :: "nat list"

record page =
  store :: "selectedFile list"
  selected :: "nat list"
  in_flight :: "submission option"
  progressCount :: int

definition start_page :: page where
  "start_page = \<lparr>store = [], selected = [], in_flight = None, progressCount = 0\<rparr>"

text \<open>The state \<open>selectedFiles\<close> as a render reads it, and the console of a page.\<close>

definition files_of :: "page \<Rightarrow> selectedFile list" where
  "files_of p = map (\<lambda>a. store p ! a) (selected p)"

definition console_of :: "page \<Rightarrow> console" where
  "console_of p =
     \<lparr>selectedFiles = files_of p, isUploading = (in_flight p \<noteq> None),
      uploadProgressCount = progressCount p\<rparr>"

text \<open>
  \<open>handleFileChange\<close> on a page: the files it appends are new objects.  The file input
  is opened by the select button, which is disabled while \<open>isUploading\<close>; so is the reset
  button.
\<close>

definition page_file_change :: "(nat \<Rightarrow> string) \<Rightarrow> file_obj list \<Rightarrow> page \<Rightarrow> page" where
  "page_file_change uuidv4 files p =
     (if in_flight p \<noteq> None then p
      else
        let added = drop (length (selected p))
                      (selectedFiles (fst (handleFileChange uuidv4 files (console_of p))))
        in p\<lparr>store := store p @ added,
             selected := selected p @ [length (store p)..<length (store p) + length added]\<rparr>)"

definition page_reset :: "page \<Rightarrow> page" where
  "page_reset p = (if in_flight p \<noteq> None then p else p\<lparr>selected := []\<rparr>)"

definition page_delete :: "string \<Rightarrow> page \<Rightarrow> page" where
  "page_delete i p = p\<lparr>selected := filter (\<lambda>a. id_sf (store p ! a) \<noteq> i) (selected p)\<rparr>"

text \<open>
  \<open>handleRename\<close> on a page.  In \<open>prevFiles.map\<close> an entry with the id is replaced by a
  new object, \<open>{...file, file: newFile}\<close>, and every other entry stays the object it
  was.  \<open>realloc\<close> goes through the addresses of the state, each with the value that
  \<open>handleRename\<close> gives the entry.
\<close>

fun realloc ::
  "string \<Rightarrow> (nat \<times> selectedFile) list \<Rightarrow> selectedFile list \<Rightarrow> nat list \<times> selectedFile list" where
  "realloc i [] objs = ([], objs)"
| "realloc i ((a, v) # avs) objs =
     (if id_sf (objs ! a) = i
      then (case realloc i avs (objs @ [v]) of (as, objs') \<Rightarrow> (length objs # as, objs'))
      else (case realloc i avs objs of (as, objs') \<Rightarrow> (a # as, objs')))"

definition page_rename :: "string \<Rightarrow> string option \<Rightarrow> page \<Rightarrow> page" where
  "page_rename i newName p =
     (case handleRename i newName (console_of p) of
        Inl e \<Rightarrow> p
      | Inr (c, shown) \<Rightarrow>
          (case shown of
             Some msg \<Rightarrow> p
           | None \<Rightarrow>
               (case realloc i (zip (selected p) (selectedFiles c)) (store p) of
                  (as, objs) \<Rightarrow> p\<lparr>store := objs, selected := as\<rparr>)))"

text \<open>
  \<open>handleSubmit\<close> on a page, in its three parts.  \<open>page_submit\<close> is the handler up to
  \<open>await Promise.all\<close>: it sets the progress count, sets \<open>isUploading\<close> and captures the
  array; with no file there is nothing to wait for.  \<open>page_settle\<close> is the request at
  position \<open>k\<close> of the captured array settling with \<open>r\<close>, which is \<open>settle\<close> on the
  store; when it was the last one, the handler goes on.  \<open>page_finish\<close> is the handler
  after the \<open>await\<close>: it keeps the captured objects that are not \<open>uploaded\<close>, marks
  them \<open>uploadFailed\<close> in the store and sets the state to them.  (The call of
  \<open>onUploadSuccess\<close> and the alert do not change the page.)
\<close>

definition page_finish :: "submission \<Rightarrow> page \<Rightarrow> page" where
  "page_finish u p =
     (let refs = filter (\<lambda>a. \<not> uploaded (store p ! a)) (captured u)
      in p\<lparr>store := mark_failed refs (store p), selected := refs, in_flight := None\<rparr>)"

definition page_submit :: "page \<Rightarrow> page" where
  "page_submit p =
     (if in_flight p \<noteq> None then p
      else
        let u = \<lparr>captured = selected p, pending = [0..<length (selected p)]\<rparr>;
            p1 = p\<lparr>progressCount := int (length (selected p)), in_flight := Some u\<rparr>
        in if pending u = [] then page_finish u p1 else p1)"

definition page_settle :: "nat \<Rightarrow> fetch_result \<Rightarrow> page \<Rightarrow> page" where
  "page_settle k r p =
     (case in_flight p of
        None \<Rightarrow> p
      | Some u \<Rightarrow>
          if k \<notin> set (pending u) then p
          else
            let s = settle (captured u ! k, r) (store p, progressCount p);
                u' = u\<lparr>pending := removeAll k (pending u)\<rparr>;
                p1 = p\<lparr>store := fst s, progressCount := snd s, in_flight := Some u'\<rparr>
            in if pending u' = [] then page_finish u' p1 else p1)"

text \<open>What happens to a page: the user's actions and the requests that settle.\<close>

datatype action =
    OnFileChange "nat \<Rightarrow> string" "file_obj list"
  | OnRename string "string option"
  | OnDelete string
  | OnReset
  | OnSubmit
  | OnSettle nat fetch_result

fun act :: "action \<Rightarrow> page \<Rightarrow> page" where
  "act (OnFileChange uuidv4 files) p = page_file_change uuidv4 files p"
| "act (OnRename i newName) p = page_rename i newName p"
| "act (OnDelete i) p = page_delete i p"
| "act OnReset p = page_reset p"
| "act OnSubmit p = page_submit p"
| "act (OnSettle k r) p = page_settle k r p"

fun go :: "action list \<Rightarrow> page \<Rightarrow> page" where
  "go [] p = p"
| "go (a # as) p = go as (act a p)"

fun is_OnSubmit :: "action \<Rightarrow> bool" where
  "is_OnSubmit OnSubmit = True"
| "is_OnSubmit a = False"

text \<open>
  The invariants of the pages: the addresses in use are addresses of the store; the
  objects of the state satisfy a condition on their two flags; at rest no object of the
  state is \<open>uploaded\<close>; before any submission no object of the state has a flag.
\<close>

definition well_addressed :: "page \<Rightarrow> bool" where
  "well_addressed p =
     ((\<forall>a \<in> set (selected p). a < length (store p))
      \<and> (\<forall>u. in_flight p = Some u \<longrightarrow> (\<forall>a \<in> set (captured u). a < length (store p))))"

definition flags :: "(bool \<Rightarrow> bool \<Rightarrow> bool) \<Rightarrow> selectedFile \<Rightarrow> bool" where
  "flags Q f = Q (uploaded f) (uploadFailed f)"

definition objs_ok :: "(bool \<Rightarrow> bool \<Rightarrow> bool) \<Rightarrow> page \<Rightarrow> bool" where
  "objs_ok Q p = (\<forall>a \<in> set (selected p). flags Q (store p ! a))"

definition idle_ok :: "page \<Rightarrow> bool" where
  "idle_ok p = (in_flight p = None \<longrightarrow> objs_ok (\<lambda>u f. \<not> u) p)"

definition unsubmitted :: "page \<Rightarrow> bool" where
  "unsubmitted p = (in_flight p = None \<and> objs_ok (\<lambda>u f. \<not> u \<and> \<not> f) p)"

subsection \<open>Example states\<close>

definition jpeg :: "string \<Rightarrow> file_obj" where
  "jpeg n = \<lparr>name = n, type = ''image/jpeg'', size_f = 12, content = ''file content''\<rparr>"

definition fresh :: "string \<Rightarrow> string \<Rightarrow> selectedFile" where
  "fresh i n = \<lparr>id_sf = i, file_sf = jpeg n, uploaded = False, uploadFailed = False\<rparr>"

definition three_files :: console where
  "three_files =
     \<lparr>selectedFiles = [fresh ''x'' ''a.jpg'', fresh ''xx'' ''README'', fresh ''xxx'' ''c.jpg''],
      isUploading = False, uploadProgressCount = 0\<rparr>"

text \<open>The first and the third request succeed, the second one rejects.\<close>

definition second_fails :: "nat \<Rightarrow> fetch_result" where
  "second_fails i = (if i = 1 then Threw else Fetched True)"

definition ids :: "nat \<Rightarrow> string" where
  "ids k = replicate (Suc k) (CHR ''x'')"

definition failed_readme :: console where
  "failed_readme =
     \<lparr>selectedFiles = [(fresh ''xx'' ''README'')\<lparr>uploadFailed := True\<rparr>],
      isUploading = False, uploadProgressCount = 0\<rparr>"

text \<open>
  Two files are selected and submitted, and both requests reject: the first round.
\<close>

definition two_files :: "action" where
  "two_files = OnFileChange ids [jpeg ''a.jpg'', jpeg ''b.jpg'']"

definition first_round :: "action list" where
  "first_round = [two_files, OnSubmit, OnSettle 0 Threw, OnSettle 1 Threw]"

definition failed :: "selectedFile \<Rightarrow> selectedFile" where
  "failed f = f\<lparr>uploadFailed := True\<rparr>"

definition both_failed :: page where
  "both_failed =
     \<lparr>store = [failed (fresh ''x'' ''a.jpg''), failed (fresh ''xx'' ''b.jpg'')],
      selected = [0, 1], in_flight = None, progressCount = 0\<rparr>"

section \<open>Properties of the router\<close>

text \<open>
  C7. On GET /image/:id and DELETE /image/:id a host failure that carries status 404 is
  answered with a local 404 and the fixed message \<open>Image not found.\<close>; every other host
  failure, also one with no response at all, is answered with a local 500.  A host 404
  never yields a local 500.
\<close>

theorem image_not_found_mapping:
  "get_image (Rejected (Some 404)) = Response 404 (Text ''Image not found.'')
   \<and> delete_image (Rejected (Some 404)) = Response 404 (Text ''Image not found.'')
   \<and> (st \<noteq> Some 404 \<longrightarrow>
        code_of (get_image (Rejected st)) = 500 \<and> code_of (delete_image (Rejected st)) = 500)
   \<and> code_of (get_image (Rejected (Some 404))) \<noteq> 500
   \<and> code_of (delete_image (Rejected (Some 404))) \<noteq> 500"
  by (simp add: get_image_def delete_image_def)

theorem image_not_found_mapping_witness:
  "(None :: nat option) \<noteq> Some 404
   \<and> code_of (get_image (Rejected None)) = 500
   \<and> code_of (delete_image (Rejected None)) = 500
   \<and> code_of (get_image (Rejected (Some 403))) = 500"
  using image_not_found_mapping [of None] image_not_found_mapping [of "Some 403"] by simp


subsection \<open>The upload fan-out\<close>

lemma upload_file_disallowed:
  "mimetype f \<notin> set allowed_types \<Longrightarrow>
   upload_file (f, r) =
     (\<lparr>file_rt = originalname f, success = False, typeError = True, status = None\<rparr>, [])"
  by (simp add: upload_file_def)

lemma upload_file_resolved:
  "mimetype f \<in> set allowed_types \<Longrightarrow>
   upload_file (f, Resolved s d) =
     (\<lparr>file_rt = originalname f, success = (s = 200), typeError = False, status = Some s\<rparr>,
      [FormData (Base64 (buffer f)) (originalname f)])"
  by (simp add: upload_file_def)

lemma upload_file_rejected:
  "mimetype f \<in> set allowed_types \<Longrightarrow>
   upload_file (f, Rejected st) =
     (\<lparr>file_rt = originalname f, success = False, typeError = False,
       status = Some (case st of None \<Rightarrow> 500 | Some c \<Rightarrow> c)\<rparr>,
      [FormData (Base64 (buffer f)) (originalname f)])"
  by (simp add: upload_file_def)

text \<open>
  C1. For an accepted batch (at least one file) the response follows the three-way policy
  over the per-file outcomes: 200 with \<open>success\<close> if every outcome is a success; otherwise
  500 if some outcome's recorded status is 500; otherwise 400 with the message that tells
  the caller to check size and type.
\<close>

theorem post_images_aggregation:
  assumes "files \<noteq> []"
  shows "((\<forall>t \<in> set (responses_of files). success t) \<longrightarrow>
            fst (post_images (Some files)) = Response 200 (Text ''success''))
       \<and> (\<not> (\<forall>t \<in> set (responses_of files). success t)
            \<and> (\<exists>t \<in> set (responses_of files). status t = Some 500) \<longrightarrow>
            fst (post_images (Some files)) =
              Response 500 (Text ''Failed to upload images to Imgur.''))
       \<and> (\<not> (\<forall>t \<in> set (responses_of files). success t)
            \<and> \<not> (\<exists>t \<in> set (responses_of files). status t = Some 500) \<longrightarrow>
            fst (post_images (Some files)) =
              Response 400 (Text ''Failed to upload some images to Imgur. Ensure that all files uploaded are of the correct size and type.''))"
  using assms by (auto simp: post_images_def Let_def list_all_iff list_ex_iff)

theorem post_images_aggregation_witness:
  "fst (post_images (Some
      [(\<lparr>originalname = ''a.png'', mimetype = ''image/png'', buffer = ''x''\<rparr>, Resolved 200 ()),
       (\<lparr>originalname = ''b.jpg'', mimetype = ''image/jpeg'', buffer = ''y''\<rparr>, Resolved 200 ())]))
     = Response 200 (Text ''success'')
   \<and> fst (post_images (Some
      [(\<lparr>originalname = ''a.png'', mimetype = ''image/png'', buffer = ''x''\<rparr>, Resolved 200 ()),
       (\<lparr>originalname = ''b.jpg'', mimetype = ''image/jpeg'', buffer = ''y''\<rparr>, Rejected None),
       (\<lparr>originalname = ''c.gif'', mimetype = ''image/gif'', buffer = ''z''\<rparr>, Resolved 200 ())]))
     = Response 500 (Text ''Failed to upload images to Imgur.'')
   \<and> code_of (fst (post_images (Some
      [(\<lparr>originalname = ''a.png'', mimetype = ''image/png'', buffer = ''x''\<rparr>, Resolved 200 ()),
       (\<lparr>originalname = ''n.txt'', mimetype = ''text/plain'', buffer = ''y''\<rparr>, Resolved 200 ())])))
     = 400"
  using
    post_images_aggregation [of
      "[(\<lparr>originalname = ''a.png'', mimetype = ''image/png'', buffer = ''x''\<rparr>, Resolved 200 ()),
        (\<lparr>originalname = ''b.jpg'', mimetype = ''image/jpeg'', buffer = ''y''\<rparr>, Resolved 200 ())]"]
    post_images_aggregation [of
      "[(\<lparr>originalname = ''a.png'', mimetype = ''image/png'', buffer = ''x''\<rparr>, Resolved 200 ()),
        (\<lparr>originalname = ''b.jpg'', mimetype = ''image/jpeg'', buffer = ''y''\<rparr>, Rejected None),
        (\<lparr>originalname = ''c.gif'', mimetype = ''image/gif'', buffer = ''z''\<rparr>, Resolved 200 ())]"]
    post_images_aggregation [of
      "[(\<lparr>originalname = ''a.png'', mimetype = ''image/png'', buffer = ''x''\<rparr>, Resolved 200 ()),
        (\<lparr>originalname = ''n.txt'', mimetype = ''text/plain'', buffer = ''y''\<rparr>, Resolved 200 ())]"]
  by (simp add: responses_of_def upload_file_def allowed_types_def)

text \<open>
  C4, as the claim states it, fails: a call that returns the success status 201 is
  recorded as a failure.
\<close>

theorem upload_success_status_counterexample:
  "success_status 201
   \<and> \<not> success (fst (upload_file
          (\<lparr>originalname = ''a.png'', mimetype = ''image/png'', buffer = ''x''\<rparr>,
           Resolved 201 ())))"
  by (simp add: success_status_def upload_file_def allowed_types_def)

text \<open>
  C4, amended. For a file whose media type is on the allow-list: when the outbound call
  returns, the returned status is recorded and the outcome is a success exactly when that
  status is 200; when the call rejects with a response that carries a status, the outcome
  is a failure with that status recorded; when it rejects with no response, or throws,
  the outcome is a failure with 500 recorded.
\<close>

theorem upload_file_classification:
  assumes "mimetype f \<in> set allowed_types"
  shows "fst (upload_file (f, Resolved s d)) =
           \<lparr>file_rt = originalname f, success = (s = 200), typeError = False, status = Some s\<rparr>
       \<and> fst (upload_file (f, Rejected (Some c))) =
           \<lparr>file_rt = originalname f, success = False, typeError = False, status = Some c\<rparr>
       \<and> fst (upload_file (f, Rejected None)) =
           \<lparr>file_rt = originalname f, success = False, typeError = False, status = Some 500\<rparr>"
  using assms by (simp add: upload_file_resolved upload_file_rejected)

theorem upload_file_classification_witness:
  "''image/png'' \<in> set allowed_types
   \<and> fst (upload_file (\<lparr>originalname = ''a.png'', mimetype = ''image/png'', buffer = ''x''\<rparr>,
                        Resolved 200 ())) =
       \<lparr>file_rt = ''a.png'', success = True, typeError = False, status = Some 200\<rparr>
   \<and> fst (upload_file (\<lparr>originalname = ''a.png'', mimetype = ''image/png'', buffer = ''x''\<rparr>,
                        Rejected (Some 429))) =
       \<lparr>file_rt = ''a.png'', success = False, typeError = False, status = Some 429\<rparr>
   \<and> fst (upload_file (\<lparr>originalname = ''a.png'', mimetype = ''image/png'', buffer = ''x''\<rparr>,
                        Rejected None)) =
       \<lparr>file_rt = ''a.png'', success = False, typeError = False, status = Some 500\<rparr>"
  using upload_file_classification
    [of "\<lparr>originalname = ''a.png'', mimetype = ''image/png'', buffer = ''x''\<rparr>" 200 "()" 429]
  by (simp add: allowed_types_def)

lemma outbound_calls_filter:
  "outbound_calls files =
     map (\<lambda>(f, r). FormData (Base64 (buffer f)) (originalname f))
       (filter (\<lambda>(f, r). mimetype f \<in> set allowed_types) files)"
proof (induction files)
  case Nil
  show ?case by (simp add: outbound_calls_def)
next
  case (Cons fr files)
  obtain f r where fr: "fr = (f, r)" by (cases fr)
  have step: "outbound_calls (fr # files) = snd (upload_file fr) @ outbound_calls files"
    by (simp add: outbound_calls_def)
  show ?case
  proof (cases "mimetype f \<in> set allowed_types")
    case True
    then have "snd (upload_file (f, r)) = [FormData (Base64 (buffer f)) (originalname f)]"
      by (cases r) (simp_all add: upload_file_resolved upload_file_rejected)
    with True Cons.IH step fr show ?thesis by simp
  next
    case False
    then have "snd (upload_file (f, r)) = []"
      by (simp add: upload_file_disallowed)
    with False Cons.IH step fr show ?thesis by simp
  qed
qed

lemma post_images_calls: "snd (post_images (Some files)) = outbound_calls files"
  by (simp add: post_images_def Let_def outbound_calls_def)

text \<open>
  C6. A file whose declared media type is not on the allow-list gets a synthesized failed
  outcome and no outbound call; a file of the same batch whose type is on the list gets
  its outbound call.  The calls of a batch are those of its allow-listed files, in order.
\<close>

theorem disallowed_type_no_outbound_call:
  "(\<forall>(f, r) \<in> set files. mimetype f \<notin> set allowed_types \<longrightarrow>
       upload_file (f, r) =
         (\<lparr>file_rt = originalname f, success = False, typeError = True, status = None\<rparr>, []))
   \<and> (\<forall>(f, r) \<in> set files. mimetype f \<in> set allowed_types \<longrightarrow>
       snd (upload_file (f, r)) = [FormData (Base64 (buffer f)) (originalname f)])
   \<and> snd (post_images (Some files)) =
       map (\<lambda>(f, r). FormData (Base64 (buffer f)) (originalname f))
         (filter (\<lambda>(f, r). mimetype f \<in> set allowed_types) files)"
proof (intro conjI)
  show "\<forall>(f, r) \<in> set files. mimetype f \<notin> set allowed_types \<longrightarrow>
       upload_file (f, r) =
         (\<lparr>file_rt = originalname f, success = False, typeError = True, status = None\<rparr>, [])"
    by (auto simp: upload_file_disallowed)
  show "\<forall>(f, r) \<in> set files. mimetype f \<in> set allowed_types \<longrightarrow>
       snd (upload_file (f, r)) = [FormData (Base64 (buffer f)) (originalname f)]"
  proof (clarify)
    fix f :: multer_file and r :: "unit axios_result"
    assume "mimetype f \<in> set allowed_types"
    then show "snd (upload_file (f, r)) = [FormData (Base64 (buffer f)) (originalname f)]"
      by (cases r) (simp_all add: upload_file_resolved upload_file_rejected)
  qed
  show "snd (post_images (Some files)) =
       map (\<lambda>(f, r). FormData (Base64 (buffer f)) (originalname f))
         (filter (\<lambda>(f, r). mimetype f \<in> set allowed_types) files)"
    by (simp only: post_images_calls outbound_calls_filter)
qed

theorem disallowed_type_no_outbound_call_witness:
  "upload_file (\<lparr>originalname = ''n.txt'', mimetype = ''text/plain'', buffer = ''y''\<rparr>,
                Resolved 200 ()) =
     (\<lparr>file_rt = ''n.txt'', success = False, typeError = True, status = None\<rparr>, [])
   \<and> snd (upload_file (\<lparr>originalname = ''a.png'', mimetype = ''image/png'', buffer = ''x''\<rparr>,
                        Resolved 200 ())) = [FormData (Base64 ''x'') ''a.png'']
   \<and> snd (post_images (Some
        [(\<lparr>originalname = ''n.txt'', mimetype = ''text/plain'', buffer = ''y''\<rparr>, Resolved 200 ()),
         (\<lparr>originalname = ''a.png'', mimetype = ''image/png'', buffer = ''x''\<rparr>, Resolved 200 ())]))
       = [FormData (Base64 ''x'') ''a.png'']"
  using disallowed_type_no_outbound_call [of
      "[(\<lparr>originalname = ''n.txt'', mimetype = ''text/plain'', buffer = ''y''\<rparr>, Resolved 200 ()),
        (\<lparr>originalname = ''a.png'', mimetype = ''image/png'', buffer = ''x''\<rparr>, Resolved 200 ())]"]
  by (simp add: allowed_types_def)

subsection \<open>The list endpoint\<close>

lemma not_lower_dot: "\<not> lower (CHR ''.'')"
  by (simp add: lower_def)

lemma replace_extension_match:
  "ext \<noteq> [] \<Longrightarrow> list_all lower ext \<Longrightarrow>
   replace_extension (base @ CHR ''.'' # ext) = base @ thumbnailSize @ CHR ''.'' # ext"
  by (induction base) (auto simp: not_lower_dot)

lemma replace_extension_no_match:
  "replace_extension s = s
   \<or> (\<exists>base ext. s = base @ CHR ''.'' # ext \<and> ext \<noteq> [] \<and> list_all lower ext)"
proof (induction s)
  case Nil
  show ?case by simp
next
  case (Cons c cs)
  show ?case
  proof (cases "c = CHR ''.'' \<and> cs \<noteq> [] \<and> list_all lower cs")
    case True
    then have "c # cs = [] @ CHR ''.'' # cs \<and> cs \<noteq> [] \<and> list_all lower cs"
      by simp
    then show ?thesis by blast
  next
    case False
    from Cons.IH show ?thesis
    proof
      assume "replace_extension cs = cs"
      with False show ?thesis by auto
    next
      assume "\<exists>base ext. cs = base @ CHR ''.'' # ext \<and> ext \<noteq> [] \<and> list_all lower ext"
      then obtain base ext
        where "cs = base @ CHR ''.'' # ext" and "ext \<noteq> []" and "list_all lower ext"
        by blast
      then have "c # cs = (c # base) @ CHR ''.'' # ext \<and> ext \<noteq> [] \<and> list_all lower ext"
        by simp
      then show ?thesis by blast
    qed
  qed
qed

text \<open>
  C8, as the claim states it, fails: the link of a video, whose extension holds a digit,
  is relayed as it is, with no size token before the extension.
\<close>

theorem thumbnail_link_counterexample:
  "get_images (Resolved 200 [\<lparr>link = ''https://host/abc.mp4'', others = []\<rparr>]) =
     Response 200 (Images [\<lparr>link = ''https://host/abc.mp4'', others = []\<rparr>])
   \<and> get_images (Resolved 200 [\<lparr>link = ''https://host/abc.mp4'', others = []\<rparr>]) \<noteq>
     Response 200 (Images [\<lparr>link = ''https://host/abcm.mp4'', others = []\<rparr>])"
  by (simp add: get_images_def lower_def)

text \<open>
  C8, amended. For every image of the list that the host returns: when the link ends in a
  dot followed by one or more lower-case letters (a to z), the size token \<open>m\<close> is
  inserted immediately before that dot; every other link is relayed as it is; all other
  fields of the image are relayed unchanged.
\<close>

theorem get_images_thumbnail_links:
  assumes "i < length allImages"
  shows "\<exists>out. get_images (Resolved s allImages) = Response 200 (Images out)
       \<and> length out = length allImages
       \<and> others (out ! i) = others (allImages ! i)
       \<and> (\<forall>base ext. link (allImages ! i) = base @ ''.'' @ ext \<and> ext \<noteq> [] \<and> list_all lower ext
             \<longrightarrow> link (out ! i) = base @ ''m'' @ ''.'' @ ext)
       \<and> ((\<nexists>base ext. link (allImages ! i) = base @ ''.'' @ ext \<and> ext \<noteq> [] \<and> list_all lower ext)
             \<longrightarrow> link (out ! i) = link (allImages ! i))"
proof -
  let ?out = "map (\<lambda>image. image\<lparr>link := replace_extension (link image)\<rparr>) allImages"
  have resp: "get_images (Resolved s allImages) = Response 200 (Images ?out)"
    by (simp add: get_images_def)
  have lnk: "link (?out ! i) = replace_extension (link (allImages ! i))"
    using assms by simp
  have oth: "others (?out ! i) = others (allImages ! i)"
    using assms by simp
  have m: "\<forall>base ext. link (allImages ! i) = base @ ''.'' @ ext \<and> ext \<noteq> [] \<and> list_all lower ext
             \<longrightarrow> link (?out ! i) = base @ ''m'' @ ''.'' @ ext"
    using replace_extension_match by (simp add: lnk thumbnailSize_def)
  have n: "(\<nexists>base ext. link (allImages ! i) = base @ ''.'' @ ext \<and> ext \<noteq> [] \<and> list_all lower ext)
             \<longrightarrow> link (?out ! i) = link (allImages ! i)"
    using replace_extension_no_match [of "link (allImages ! i)"] by (auto simp: lnk)
  from resp oth m n show ?thesis by (intro exI [of _ ?out]) simp
qed

theorem get_images_thumbnail_links_witness:
  "(0::nat) < length [\<lparr>link = ''https://host/abc.jpg'', others = [(''id'', ''1'')]\<rparr>]
   \<and> get_images (Resolved 200 [\<lparr>link = ''https://host/abc.jpg'', others = [(''id'', ''1'')]\<rparr>]) =
       Response 200 (Images [\<lparr>link = ''https://host/abcm.jpg'', others = [(''id'', ''1'')]\<rparr>])"
  using get_images_thumbnail_links
    [of 0 "[\<lparr>link = ''https://host/abc.jpg'', others = [(''id'', ''1'')]\<rparr>]" 200]
  by (simp add: get_images_def lower_def thumbnailSize_def)

section \<open>Properties of the upload console\<close>

subsection \<open>Renaming\<close>

lemma split_dot_dotless: "CHR ''.'' \<notin> set s \<Longrightarrow> split_dot s = [s]"
  by (induction s) auto

lemma handleRename_invalid:
  assumes "case newName of None \<Rightarrow> True
           | Some n \<Rightarrow> n = [] \<or> \<not> list_all (\<lambda>c. lower c \<or> upper c \<or> digit c) n \<or> length n > 20"
  shows "handleRename i newName st = Inl TypeError
       \<or> handleRename i newName st =
            Inr (st, Some ''You must enter a name for the file. Please try again.'')
       \<or> handleRename i newName st =
            Inr (st, Some ''Names must be alphanumeric and under 20 characters. Do not include the file extension.'')"
  using assms
  by (auto simp: handleRename_def Let_def NEW_NAME_REGEX_def split: option.splits)

text \<open>
  C9. An invalid rename (no name or an empty one, a name with a character that is not
  alphanumeric, or a name above the length cap) leaves the whole state, so the target
  file's name and every other entry of the pending set, unchanged: the handler either
  shows one of its two messages and returns the state as it was, or it throws (when no
  entry has the id) before it sets anything.
\<close>

theorem invalid_rename_unchanged:
  assumes "case newName of None \<Rightarrow> True
           | Some n \<Rightarrow> n = [] \<or> \<not> list_all (\<lambda>c. lower c \<or> upper c \<or> digit c) n \<or> length n > 20"
  shows "step (Rename i newName) st = Some st
       \<and> (handleRename i newName st = Inl TypeError
          \<or> handleRename i newName st =
               Inr (st, Some ''You must enter a name for the file. Please try again.'')
          \<or> handleRename i newName st =
               Inr (st, Some ''Names must be alphanumeric and under 20 characters. Do not include the file extension.''))"
  using handleRename_invalid [OF assms, of i st] by auto

theorem invalid_rename_unchanged_witness:
  "step (Rename ''xx'' (Some ''bad name'')) three_files = Some three_files
   \<and> step (Rename ''xx'' (Some ''ABCDEFGHIJKLMNOPQRSTUVWXYZ'')) three_files = Some three_files
   \<and> step (Rename ''xx'' (Some [])) three_files = Some three_files
   \<and> step (Rename ''xx'' None) three_files = Some three_files"
  using invalid_rename_unchanged [of "Some ''bad name''" "''xx''" three_files]
    invalid_rename_unchanged [of "Some ''ABCDEFGHIJKLMNOPQRSTUVWXYZ''" "''xx''" three_files]
    invalid_rename_unchanged [of "Some []" "''xx''" three_files]
    invalid_rename_unchanged [of None "''xx''" three_files]
  by (simp add: lower_def upper_def digit_def)

text \<open>
  C10. When the entry found for the id has a name with no dot, a successful rename gives
  every entry with that id the name \<open>newName\<close>, a dot, and the whole old name of the
  entry found: the old name is appended as if it were the extension.  The other entries
  are unchanged.
\<close>

theorem rename_dotless_name:
  assumes "find (\<lambda>f. id_sf f = i) (selectedFiles st) = Some target"
      and "CHR ''.'' \<notin> set (name (file_sf target))"
      and "NEW_NAME_REGEX n"
  shows "handleRename i (Some n) st =
     Inr (st\<lparr>selectedFiles :=
            map (\<lambda>f. if id_sf f = i
                      then f\<lparr>file_sf := (file_sf f)\<lparr>name := n @ ''.'' @ name (file_sf target)\<rparr>\<rparr>
                      else f) (selectedFiles st)\<rparr>, None)"
proof -
  from assms(3) have "n \<noteq> []" by (auto simp: NEW_NAME_REGEX_def)
  with assms show ?thesis
    by (simp add: handleRename_def split_dot_dotless)
qed

theorem rename_dotless_name_witness:
  "find (\<lambda>f. id_sf f = ''xx'') (selectedFiles three_files) = Some (fresh ''xx'' ''README'')
   \<and> CHR ''.'' \<notin> set (name (file_sf (fresh ''xx'' ''README'')))
   \<and> NEW_NAME_REGEX ''notes''
   \<and> handleRename ''xx'' (Some ''notes'') three_files =
       Inr (three_files\<lparr>selectedFiles :=
              [fresh ''x'' ''a.jpg'', fresh ''xx'' ''notes.README'', fresh ''xxx'' ''c.jpg'']\<rparr>,
            None)"
proof -
  have f: "find (\<lambda>f. id_sf f = ''xx'') (selectedFiles three_files) = Some (fresh ''xx'' ''README'')"
    by (simp add: three_files_def fresh_def)
  have d: "CHR ''.'' \<notin> set (name (file_sf (fresh ''xx'' ''README'')))"
    by (simp add: fresh_def jpeg_def)
  have v: "NEW_NAME_REGEX ''notes''"
    by (simp add: NEW_NAME_REGEX_def lower_def)
  show ?thesis
    using f d v rename_dotless_name [OF f d v]
    by (simp add: three_files_def fresh_def jpeg_def)
qed

subsection \<open>The progress count\<close>

lemma settle_count: "snd (settle (i, r) (heap, c)) = c - 1"
  by (simp add: settle_def split: fetch_result.splits)

lemma settle_all_count:
  "snd (settle_all evs (heap, c)) = c - int (length evs)"
proof (induction evs arbitrary: heap c)
  case Nil
  show ?case by simp
next
  case (Cons ev evs)
  obtain i r where ev: "ev = (i, r)" by (cases ev)
  obtain heap' where s: "settle ev (heap, c) = (heap', c - 1)"
    using settle_count [of i r heap c] ev by (cases "settle ev (heap, c)") simp
  show ?case using Cons.IH [of heap' "c - 1"] by (simp add: s)
qed

lemma progress_counts_eq:
  "progress_counts evs (heap, c) = map (\<lambda>j. c - int j) [1..<Suc (length evs)]"
proof (induction evs arbitrary: heap c)
  case Nil
  show ?case by simp
next
  case (Cons ev evs)
  obtain i r where ev: "ev = (i, r)" by (cases ev)
  obtain heap' where s: "settle ev (heap, c) = (heap', c - 1)"
    using settle_count [of i r heap c] ev by (cases "settle ev (heap, c)") simp
  have "[1..<Suc (Suc (length evs))] = 1 # map Suc [1..<Suc (length evs)]"
    by (metis One_nat_def map_Suc_upt upt_conv_Cons zero_less_Suc Suc_less_eq)
  then show ?case using Cons.IH [of heap' "c - 1"] by (simp add: s comp_def)
qed

lemma counts_shape:
  "int K # map (\<lambda>j. int K - int j) [Suc 0..<Suc K] = map (\<lambda>j. int K - int j) [0..<Suc K]"
  by (simp add: upt_rec [of 0] del: upt_Suc)

lemma count_zero_once:
  "count_list (map (\<lambda>j. int K - int j) [0..<Suc K]) 0 = 1"
proof -
  have "filter ((=) (0::int)) (map (\<lambda>j. int K - int j) [0..<K]) = []"
    by (auto simp: filter_empty_conv)
  then have "filter ((=) 0) (map (\<lambda>j. int K - int j) [0..<Suc K]) = [0]"
    by simp
  then show ?thesis by (simp add: count_list_eq_length_filter)
qed

lemma sort_upt:
  assumes "sort order = [0..<K]"
  shows "length order = K" and "set order = {0..<K}" and "distinct order"
proof -
  show "length order = K" using assms by (metis length_sort length_upt diff_zero)
  show "set order = {0..<K}" using assms by (metis set_sort set_upt)
  show "distinct order" using assms by (metis distinct_sort distinct_upt)
qed

lemma handleSubmit_Some:
  assumes "sort order = [0..<length (selectedFiles st)]"
  shows "handleSubmit fetch order st =
    Some \<lparr>console_after =
            \<lparr>selectedFiles =
               map (\<lambda>i. mark_failed (filesToRetain (fst (settle_all (map (\<lambda>i. (i, fetch i)) order)
                          (selectedFiles st, int (length (selectedFiles st))))))
                        (fst (settle_all (map (\<lambda>i. (i, fetch i)) order)
                          (selectedFiles st, int (length (selectedFiles st))))) ! i)
                 (filesToRetain (fst (settle_all (map (\<lambda>i. (i, fetch i)) order)
                          (selectedFiles st, int (length (selectedFiles st)))))),
             isUploading = False,
             uploadProgressCount = snd (settle_all (map (\<lambda>i. (i, fetch i)) order)
                          (selectedFiles st, int (length (selectedFiles st))))\<rparr>,
          onUploadSuccess_called = list_ex uploaded (fst (settle_all (map (\<lambda>i. (i, fetch i)) order)
                          (selectedFiles st, int (length (selectedFiles st))))),
          alert_shown =
            (if list_ex uploadFailed
                  (mark_failed (filesToRetain (fst (settle_all (map (\<lambda>i. (i, fetch i)) order)
                          (selectedFiles st, int (length (selectedFiles st))))))
                        (fst (settle_all (map (\<lambda>i. (i, fetch i)) order)
                          (selectedFiles st, int (length (selectedFiles st))))))
             then Some ''Some files failed to upload. They have been retained in your selection.''
             else None),
          counts = int (length (selectedFiles st))
                   # progress_counts (map (\<lambda>i. (i, fetch i)) order)
                       (selectedFiles st, int (length (selectedFiles st)))\<rparr>"
  using assms by (simp add: handleSubmit_def Let_def)

lemma handleSubmit_counts:
  assumes "sort order = [0..<length (selectedFiles st)]"
  shows "\<exists>res. handleSubmit fetch order st = Some res
           \<and> counts res = map (\<lambda>j. int (length (selectedFiles st)) - int j)
                             [0..<Suc (length (selectedFiles st))]
           \<and> uploadProgressCount (console_after res) = 0"
proof -
  let ?K = "length (selectedFiles st)"
  have len: "length order = ?K" using sort_upt(1) [OF assms] .
  show ?thesis
    by (simp add: handleSubmit_Some [OF assms] progress_counts_eq settle_all_count len
          counts_shape del: upt_Suc)
qed

lemma progress_nonneg:
  assumes "length order \<le> K"
  shows "\<forall>c \<in> set (int K # progress_counts (map (\<lambda>i. (i, fetch i)) order) (heap, int K)). 0 \<le> c"
  using assms by (auto simp: progress_counts_eq)

lemma distinct_bounded_length:
  assumes "distinct order" and "set order \<subseteq> {0..<K}"
  shows "length order \<le> K"
proof -
  have "length order = card (set order)" using assms(1) by (simp add: distinct_card)
  also have "\<dots> \<le> card {0..<K}" using assms(2) by (intro card_mono) simp_all
  finally show ?thesis by simp
qed

text \<open>
  C5. For a submission of K pending files, whose requests all settle, in any order and
  with any outcomes: the handler completes; the progress count starts at K and takes the
  values K, K - 1, ..., 0, so it is never negative and is 0 exactly once, at the end.
  Each request that settles decrements the count by exactly one, whatever its outcome
  (a response that is ok, one that is not, or a thrown error).  While only some of the
  requests have settled, each at most once, the count is not negative either.
\<close>

theorem progress_accounting:
  "(sort order = [0..<length (selectedFiles st)] \<longrightarrow>
     (\<exists>res. handleSubmit fetch order st = Some res
        \<and> counts res = map (\<lambda>j. int (length (selectedFiles st)) - int j)
                          [0..<Suc (length (selectedFiles st))]
        \<and> hd (counts res) = int (length (selectedFiles st))
        \<and> (\<forall>c \<in> set (counts res). 0 \<le> c)
        \<and> count_list (counts res) 0 = 1
        \<and> last (counts res) = 0))
   \<and> snd (settle (i, r) (heap, c)) = c - 1
   \<and> (distinct order \<and> set order \<subseteq> {0..<length (selectedFiles st)} \<longrightarrow>
        (\<forall>c \<in> set (int (length (selectedFiles st))
                     # progress_counts (map (\<lambda>i. (i, fetch i)) order)
                         (selectedFiles st, int (length (selectedFiles st)))). 0 \<le> c))"
proof (intro conjI impI)
  let ?K = "length (selectedFiles st)"
  let ?tr = "map (\<lambda>j. int ?K - int j) [0..<Suc ?K]"
  show "snd (settle (i, r) (heap, c)) = c - 1" by (rule settle_count)
  {
    assume a: "sort order = [0..<?K]"
    obtain res where res: "handleSubmit fetch order st = Some res" "counts res = ?tr"
      using handleSubmit_counts [OF a] by blast
    have h: "hd ?tr = int ?K" by (simp add: upt_rec [of 0] del: upt_Suc)
    have nn: "\<forall>c \<in> set ?tr. 0 \<le> c" by auto
    have l: "last ?tr = 0" by simp
    show "\<exists>res. handleSubmit fetch order st = Some res
        \<and> counts res = ?tr \<and> hd (counts res) = int ?K
        \<and> (\<forall>c \<in> set (counts res). 0 \<le> c)
        \<and> count_list (counts res) 0 = 1
        \<and> last (counts res) = 0"
      using res h nn l count_zero_once [of ?K] by (intro exI [of _ res]) (simp del: upt_Suc)
  }
  {
    assume "distinct order \<and> set order \<subseteq> {0..<?K}"
    then have "length order \<le> ?K" using distinct_bounded_length by blast
    then show "\<forall>c \<in> set (int ?K # progress_counts (map (\<lambda>i. (i, fetch i)) order)
                         (selectedFiles st, int ?K)). 0 \<le> c"
      by (rule progress_nonneg)
  }
qed

theorem progress_accounting_witness:
  "sort [2, 0, 1] = [0..<length (selectedFiles three_files)]
   \<and> map_option counts (handleSubmit second_fails [2, 0, 1] three_files) = Some [3, 2, 1, 0]
   \<and> distinct [2, 0::nat] \<and> set [2, 0] \<subseteq> {0..<length (selectedFiles three_files)}
   \<and> int (length (selectedFiles three_files))
       # progress_counts (map (\<lambda>i. (i, second_fails i)) [2, 0])
           (selectedFiles three_files, int (length (selectedFiles three_files))) = [3, 2, 1]"
proof -
  have len: "length (selectedFiles three_files) = 3"
    by (simp add: three_files_def)
  have s: "sort [2, 0, 1] = [0..<length (selectedFiles three_files)]"
    by (simp add: len upt_rec)
  have d: "distinct [2, 0::nat] \<and> set [2, 0] \<subseteq> {0..<length (selectedFiles three_files)}"
    by (simp add: len)
  from s progress_accounting [of "[2, 0, 1]" three_files second_fails 0 Threw "[]" 0]
  have "\<exists>res. handleSubmit second_fails [2, 0, 1] three_files = Some res
          \<and> counts res = map (\<lambda>j. int (length (selectedFiles three_files)) - int j)
                            [0..<Suc (length (selectedFiles three_files))]"
    by blast
  then have c: "map_option counts (handleSubmit second_fails [2, 0, 1] three_files)
                  = Some [3, 2, 1, 0]"
    by (auto simp: len upt_rec)
  have pc: "int (length (selectedFiles three_files))
       # progress_counts (map (\<lambda>i. (i, second_fails i)) [2, 0])
           (selectedFiles three_files, int (length (selectedFiles three_files))) = [3, 2, 1]"
    by (simp add: len progress_counts_eq upt_rec)
  from s c d pc show ?thesis by blast
qed

subsection \<open>Reconciliation after a submission\<close>

lemma settle_length: "length (fst (settle (i, r) (heap, c))) = length heap"
  by (simp add: settle_def split: fetch_result.splits)

lemma settled_idem: "settled r (settled r f) = settled r f"
  by (simp add: settled_def split: fetch_result.splits)

lemma settle_nth:
  "j < length heap \<Longrightarrow>
   fst (settle (i, r) (heap, c)) ! j = (if j = i then settled r (heap ! j) else heap ! j)"
  by (simp add: settle_def settled_def split: fetch_result.splits)

lemma settle_all_heap:
  "length (fst (settle_all (map (\<lambda>i. (i, fetch i)) order) (heap, c))) = length heap
   \<and> (\<forall>j < length heap.
        fst (settle_all (map (\<lambda>i. (i, fetch i)) order) (heap, c)) ! j =
          (if j \<in> set order then settled (fetch j) (heap ! j) else heap ! j))"
proof (induction order arbitrary: heap c)
  case Nil
  show ?case by simp
next
  case (Cons i order)
  obtain heap' c' where s: "settle (i, fetch i) (heap, c) = (heap', c')"
    by (cases "settle (i, fetch i) (heap, c)")
  have len: "length heap' = length heap"
    using settle_length [of i "fetch i" heap c] by (simp add: s)
  have nth: "\<And>j. j < length heap \<Longrightarrow>
      heap' ! j = (if j = i then settled (fetch i) (heap ! j) else heap ! j)"
    using settle_nth [of _ heap i "fetch i" c] by (simp add: s)
  from Cons.IH [of heap' c'] len nth show ?case
    by (auto simp: s settled_idem)
qed

lemma nth_update_at:
  "j < length heap \<Longrightarrow>
   heap[i := g (heap ! i)] ! j = (if j = i then g (heap ! j) else heap ! j)"
  by (cases "i = j") simp_all

lemma mark_failed_heap:
  "length (mark_failed refs heap) = length heap
   \<and> (\<forall>j < length heap.
        mark_failed refs heap ! j =
          (if j \<in> set refs then (heap ! j)\<lparr>uploadFailed := True\<rparr> else heap ! j))"
proof (induction refs arbitrary: heap)
  case Nil
  show ?case by (simp add: mark_failed_def)
next
  case (Cons i refs)
  let ?h = "heap[i := (heap ! i)\<lparr>uploadFailed := True\<rparr>]"
  have step: "mark_failed (i # refs) heap = mark_failed refs ?h"
    by (simp add: mark_failed_def)
  have upd: "\<And>j. j < length heap \<Longrightarrow>
      ?h ! j = (if j = i then (heap ! j)\<lparr>uploadFailed := True\<rparr> else heap ! j)"
    by (rule nth_update_at)
  from Cons.IH [of ?h] show ?case
    by (auto simp: step upd)
qed

text \<open>The state that a submission leaves, in terms of the store after the requests.\<close>

lemma retained_refs:
  "map (\<lambda>i. mark_failed (filesToRetain heap) heap ! i) (filesToRetain heap) =
     map (\<lambda>i. (heap ! i)\<lparr>uploadFailed := True\<rparr>) (filesToRetain heap)"
proof -
  have in_refs: "\<And>i. i \<in> set (filesToRetain heap) \<Longrightarrow> i < length heap"
    by (simp add: filesToRetain_def)
  show ?thesis
    using mark_failed_heap [of "filesToRetain heap" heap] in_refs by (intro map_cong) auto
qed

lemma retained_files:
  "map (\<lambda>i. mark_failed (filesToRetain heap) heap ! i) (filesToRetain heap) =
     map (\<lambda>f. f\<lparr>uploadFailed := True\<rparr>) (filter (\<lambda>f. \<not> uploaded f) heap)"
proof -
  have "map (\<lambda>i. (heap ! i)\<lparr>uploadFailed := True\<rparr>) (filesToRetain heap) =
        map (\<lambda>f. f\<lparr>uploadFailed := True\<rparr>) (map (\<lambda>i. heap ! i) (filesToRetain heap))"
    by simp
  also have "map (\<lambda>i. heap ! i) (filesToRetain heap) =
             filter (\<lambda>f. \<not> uploaded f) (map (\<lambda>i. heap ! i) [0..<length heap])"
    by (simp add: filesToRetain_def filter_map comp_def)
  also have "map (\<lambda>i. heap ! i) [0..<length heap] = heap"
    by (rule map_nth)
  finally show ?thesis by (simp only: retained_refs)
qed

lemma handleSubmit_SomeD:
  assumes "handleSubmit fetch order st = Some res"
  shows "sort order = [0..<length (selectedFiles st)]"
  using assms by (simp add: handleSubmit_def Let_def split: if_splits)

lemma submit_flags:
  assumes "handleSubmit fetch order st = Some res"
  shows "\<forall>f \<in> set (selectedFiles (console_after res)). \<not> uploaded f \<and> uploadFailed f"
proof -
  have s: "sort order = [0..<length (selectedFiles st)]"
    using assms by (rule handleSubmit_SomeD)
  let ?heap1 = "fst (settle_all (map (\<lambda>i. (i, fetch i)) order)
                  (selectedFiles st, int (length (selectedFiles st))))"
  have "selectedFiles (console_after res) =
          map (\<lambda>f. f\<lparr>uploadFailed := True\<rparr>) (filter (\<lambda>f. \<not> uploaded f) ?heap1)"
    using assms unfolding handleSubmit_Some [OF s] by (auto simp: retained_files)
  then show ?thesis by auto
qed

lemma uploaded_False_update: "\<not> uploaded f \<Longrightarrow> f\<lparr>uploaded := False\<rparr> = f"
  by (cases f) simp

lemma settled_uploaded:
  "\<not> uploaded f \<Longrightarrow> uploaded (settled r f) = (r = Fetched True)"
  by (cases r) (simp_all add: settled_def)

lemma settled_failed:
  "\<not> uploaded f \<Longrightarrow> r \<noteq> Fetched True \<Longrightarrow> settled r f = f"
  by (cases r) (auto simp: settled_def uploaded_False_update)

lemma handleFileChange_files:
  "selectedFiles (fst (handleFileChange uuidv4 files st)) = selectedFiles st
   \<or> (\<exists>added. selectedFiles (fst (handleFileChange uuidv4 files st)) = selectedFiles st @ added
        \<and> (\<forall>f \<in> set added. \<not> uploaded f \<and> \<not> uploadFailed f))"
  by (auto simp: handleFileChange_def Let_def)

lemma handleRename_files:
  assumes "handleRename i newName st = Inr (st', shown)"
  shows "map uploaded (selectedFiles st') = map uploaded (selectedFiles st)
       \<and> map uploadFailed (selectedFiles st') = map uploadFailed (selectedFiles st)"
  using assms
  by (auto simp: handleRename_def Let_def comp_def split: option.splits if_splits)

lemma flags_of_maps:
  assumes "map uploaded xs = map uploaded ys" and "map uploadFailed xs = map uploadFailed ys"
  shows "(\<forall>f \<in> set xs. \<not> uploaded f) = (\<forall>f \<in> set ys. \<not> uploaded f)"
    and "(\<forall>f \<in> set xs. \<not> uploaded f \<and> \<not> uploadFailed f) = (\<forall>f \<in> set ys. \<not> uploaded f \<and> \<not> uploadFailed f)"
proof -
  have u: "uploaded ` set xs = uploaded ` set ys" using assms(1) by (metis set_map)
  have v: "uploadFailed ` set xs = uploadFailed ` set ys" using assms(2) by (metis set_map)
  show "(\<forall>f \<in> set xs. \<not> uploaded f) = (\<forall>f \<in> set ys. \<not> uploaded f)"
    using u by (metis (mono_tags, lifting) imageE imageI)
  have "(\<forall>f \<in> set xs. \<not> uploadFailed f) = (\<forall>f \<in> set ys. \<not> uploadFailed f)"
    using v by (metis (mono_tags, lifting) imageE imageI)
  with \<open>(\<forall>f \<in> set xs. \<not> uploaded f) = (\<forall>f \<in> set ys. \<not> uploaded f)\<close>
  show "(\<forall>f \<in> set xs. \<not> uploaded f \<and> \<not> uploadFailed f) = (\<forall>f \<in> set ys. \<not> uploaded f \<and> \<not> uploadFailed f)"
    by blast
qed

lemma step_no_uploaded:
  assumes "step e st = Some st'" and "no_uploaded st"
  shows "no_uploaded st'"
proof (cases e)
  case (FileChange uuidv4 files)
  with assms handleFileChange_files [of uuidv4 files st] show ?thesis
    by (auto simp: no_uploaded_def)
next
  case (Rename i newName)
  show ?thesis
  proof (cases "handleRename i newName st")
    case (Inl err)
    with assms Rename show ?thesis by simp
  next
    case (Inr p)
    obtain st1 shown where p: "p = (st1, shown)" by (cases p)
    with Inr assms Rename have "st' = st1" by simp
    with handleRename_files [of i newName st st1 shown] Inr p assms(2)
      flags_of_maps(1) [of "selectedFiles st'" "selectedFiles st"]
    show ?thesis by (simp add: no_uploaded_def)
  qed
next
  case (Delete i)
  with assms show ?thesis by (auto simp: no_uploaded_def handleDelete_def)
next
  case Reset
  with assms show ?thesis by (auto simp: no_uploaded_def handleReset_def)
next
  case (Submit fetch order)
  with assms obtain res where "handleSubmit fetch order st = Some res"
    and "st' = console_after res" by auto
  with submit_flags [of fetch order st res] show ?thesis by (simp add: no_uploaded_def)
qed

lemma run_no_uploaded:
  "run es st = Some st' \<Longrightarrow> no_uploaded st \<Longrightarrow> no_uploaded st'"
proof (induction es arbitrary: st)
  case Nil
  then show ?case by simp
next
  case (Cons e es)
  then obtain st1 where s: "step e st = Some st1" and r: "run es st1 = Some st'"
    by (auto split: option.splits)
  from step_no_uploaded [OF s Cons.prems(2)] Cons.IH [OF r] show ?case by blast
qed

lemma settled_heap:
  assumes "sort order = [0..<length heap]"
  shows "fst (settle_all (map (\<lambda>i. (i, fetch i)) order) (heap, c)) =
           map (\<lambda>j. settled (fetch j) (heap ! j)) [0..<length heap]"
proof (rule nth_equalityI)
  show "length (fst (settle_all (map (\<lambda>i. (i, fetch i)) order) (heap, c))) =
        length (map (\<lambda>j. settled (fetch j) (heap ! j)) [0..<length heap])"
    using settle_all_heap [of fetch order heap c] by simp
next
  fix j assume "j < length (fst (settle_all (map (\<lambda>i. (i, fetch i)) order) (heap, c)))"
  then have j: "j < length heap"
    using settle_all_heap [of fetch order heap c] by simp
  then have "j \<in> set order" using sort_upt(2) [OF assms] by simp
  with j show "fst (settle_all (map (\<lambda>i. (i, fetch i)) order) (heap, c)) ! j =
        map (\<lambda>j. settled (fetch j) (heap ! j)) [0..<length heap] ! j"
    using settle_all_heap [of fetch order heap c] by simp
qed

text \<open>The example submissions, evaluated.\<close>

lemma upt_3: "[0..<3] = [0, 1, 2::nat]"
  by (simp add: upt_rec)

lemma len3: "length (selectedFiles three_files) = 3"
  by (simp add: three_files_def)

lemma heap1_three:
  "fst (settle_all (map (\<lambda>i. (i, second_fails i)) [2, 0, 1])
          (selectedFiles three_files, int (length (selectedFiles three_files)))) =
     [(fresh ''x'' ''a.jpg'')\<lparr>uploaded := True\<rparr>, fresh ''xx'' ''README'',
      (fresh ''xxx'' ''c.jpg'')\<lparr>uploaded := True\<rparr>]"
proof -
  have s: "sort [2, 0, 1] = [0..<length (selectedFiles three_files)]"
    by (simp add: len3 upt_3)
  show ?thesis
    unfolding settled_heap [OF s]
    by (simp add: len3 upt_3 settled_def second_fails_def three_files_def)
qed

lemma submit_three:
  "handleSubmit second_fails [2, 0, 1] three_files =
     Some \<lparr>console_after = failed_readme, onUploadSuccess_called = True,
           alert_shown = Some ''Some files failed to upload. They have been retained in your selection.'',
           counts = [3, 2, 1, 0]\<rparr>"
proof -
  have s: "sort [2, 0, 1] = [0..<length (selectedFiles three_files)]"
    by (simp add: len3 upt_3)
  have c: "snd (settle_all (map (\<lambda>i. (i, second_fails i)) [2, 0, 1])
              (selectedFiles three_files, int (length (selectedFiles three_files)))) = 0"
    unfolding settle_all_count by (simp add: len3)
  have p: "progress_counts (map (\<lambda>i. (i, second_fails i)) [2, 0, 1])
              (selectedFiles three_files, int (length (selectedFiles three_files))) = [2, 1, 0]"
    unfolding progress_counts_eq by (simp add: len3 upt_rec)
  have r: "filesToRetain [(fresh ''x'' ''a.jpg'')\<lparr>uploaded := True\<rparr>, fresh ''xx'' ''README'',
      (fresh ''xxx'' ''c.jpg'')\<lparr>uploaded := True\<rparr>] = [1]"
    by (simp add: filesToRetain_def upt_3 fresh_def)
  have m: "mark_failed [1] [(fresh ''x'' ''a.jpg'')\<lparr>uploaded := True\<rparr>, fresh ''xx'' ''README'',
      (fresh ''xxx'' ''c.jpg'')\<lparr>uploaded := True\<rparr>] =
      [(fresh ''x'' ''a.jpg'')\<lparr>uploaded := True\<rparr>, (fresh ''xx'' ''README'')\<lparr>uploadFailed := True\<rparr>,
      (fresh ''xxx'' ''c.jpg'')\<lparr>uploaded := True\<rparr>]"
    by (simp add: mark_failed_def)
  show ?thesis
    unfolding handleSubmit_Some [OF s] heap1_three c p r m
    by (simp add: len3 failed_readme_def fresh_def)
qed


lemma len1: "length (selectedFiles failed_readme) = 1"
  by (simp add: failed_readme_def)

lemma resubmit:
  "handleSubmit (\<lambda>i. Fetched ok) [0] failed_readme =
     Some \<lparr>console_after =
             \<lparr>selectedFiles = (if ok then [] else [(fresh ''xx'' ''README'')\<lparr>uploadFailed := True\<rparr>]),
              isUploading = False, uploadProgressCount = 0\<rparr>,
           onUploadSuccess_called = ok,
           alert_shown = Some ''Some files failed to upload. They have been retained in your selection.'',
           counts = [1, 0]\<rparr>"
proof -
  have s: "sort [0] = [0..<length (selectedFiles failed_readme)]"
    by (simp add: len1)
  have h: "fst (settle_all (map (\<lambda>i. (i, Fetched ok)) [0])
              (selectedFiles failed_readme, int (length (selectedFiles failed_readme)))) =
           [(fresh ''xx'' ''README'')\<lparr>uploadFailed := True, uploaded := ok\<rparr>]"
    by (simp add: settle_def failed_readme_def)
  have c: "snd (settle_all (map (\<lambda>i. (i, Fetched ok)) [0])
              (selectedFiles failed_readme, int (length (selectedFiles failed_readme)))) = 0"
    unfolding settle_all_count by (simp add: len1)
  have p: "progress_counts (map (\<lambda>i. (i, Fetched ok)) [0])
              (selectedFiles failed_readme, int (length (selectedFiles failed_readme))) = [0]"
    unfolding progress_counts_eq by (simp add: len1)
  have r: "filesToRetain [(fresh ''xx'' ''README'')\<lparr>uploadFailed := True, uploaded := ok\<rparr>] =
             (if ok then [] else [0])"
    by (simp add: filesToRetain_def)
  have m: "mark_failed (if ok then [] else [0])
             [(fresh ''xx'' ''README'')\<lparr>uploadFailed := True, uploaded := ok\<rparr>] =
             [(fresh ''xx'' ''README'')\<lparr>uploadFailed := True, uploaded := ok\<rparr>]"
    by (simp add: mark_failed_def)
  show ?thesis
    unfolding handleSubmit_Some [OF s] h c p r m
    by (simp add: len1 fresh_def)
qed

lemma step_select:
  "step (FileChange ids [jpeg ''a.jpg'', jpeg ''README'', jpeg ''c.jpg'']) initial = Some three_files"
  by (simp add: handleFileChange_def initial_def three_files_def fresh_def ids_def
        MAX_FILE_COUNT_def MAX_FILE_SIZE_def jpeg_def)

text \<open>
  C2. In a state that the console reaches, a submission whose requests have all settled
  (in any order) completes, and then: the pending set is replaced by exactly the files
  whose request did not succeed, in their order and marked \<open>uploadFailed\<close>, so every file
  whose request succeeded is dropped; \<open>onUploadSuccess\<close> is called exactly when some
  request succeeded; and the aggregate message is shown if some request failed.
\<close>

theorem submit_reconciliation:
  assumes "run es initial = Some st"
      and "sort order = [0..<length (selectedFiles st)]"
  shows "\<exists>res. handleSubmit fetch order st = Some res
       \<and> selectedFiles (console_after res) =
           map (\<lambda>i. (selectedFiles st ! i)\<lparr>uploadFailed := True\<rparr>)
             (filter (\<lambda>i. fetch i \<noteq> Fetched True) [0..<length (selectedFiles st)])
       \<and> onUploadSuccess_called res = (\<exists>i < length (selectedFiles st). fetch i = Fetched True)
       \<and> ((\<exists>i < length (selectedFiles st). fetch i \<noteq> Fetched True) \<longrightarrow>
            alert_shown res =
              Some ''Some files failed to upload. They have been retained in your selection.'')"
proof -
  let ?heap0 = "selectedFiles st"
  let ?K = "length ?heap0"
  let ?heap1 = "map (\<lambda>j. settled (fetch j) (?heap0 ! j)) [0..<?K]"
  let ?refs = "filter (\<lambda>i. fetch i \<noteq> Fetched True) [0..<?K]"
  have "no_uploaded initial" by (simp add: no_uploaded_def initial_def)
  then have inv: "\<forall>f \<in> set ?heap0. \<not> uploaded f"
    using run_no_uploaded [OF assms(1)] by (simp add: no_uploaded_def)
  then have inv_nth: "\<And>j. j < ?K \<Longrightarrow> \<not> uploaded (?heap0 ! j)" by simp
  have h1: "fst (settle_all (map (\<lambda>i. (i, fetch i)) order) (?heap0, int ?K)) = ?heap1"
    by (rule settled_heap [OF assms(2)])
  have up: "\<And>j. j < ?K \<Longrightarrow> uploaded (?heap1 ! j) = (fetch j = Fetched True)"
    using inv_nth by (simp add: settled_uploaded)
  have refs: "filesToRetain ?heap1 = ?refs"
    unfolding filesToRetain_def
  proof (rule filter_cong)
    show "[0..<length ?heap1] = [0..<?K]" by simp
    fix i assume "i \<in> set [0..<?K]"
    then have "i < ?K" by simp
    from up [OF this] show "(\<not> uploaded (?heap1 ! i)) = (fetch i \<noteq> Fetched True)" by simp
  qed
  have kept: "map (\<lambda>i. (?heap1 ! i)\<lparr>uploadFailed := True\<rparr>) ?refs =
              map (\<lambda>i. (?heap0 ! i)\<lparr>uploadFailed := True\<rparr>) ?refs"
    using inv_nth by (intro map_cong) (auto simp: settled_failed)
  have files: "map (\<lambda>i. mark_failed (filesToRetain ?heap1) ?heap1 ! i) (filesToRetain ?heap1) =
               map (\<lambda>i. (?heap0 ! i)\<lparr>uploadFailed := True\<rparr>) ?refs"
    using retained_refs [of ?heap1] kept by (simp only: refs)
  have called: "list_ex uploaded ?heap1 = (\<exists>i < ?K. fetch i = Fetched True)"
  proof
    assume "list_ex uploaded ?heap1"
    then obtain j where "j < ?K" "uploaded (settled (fetch j) (?heap0 ! j))"
      by (auto simp: list_ex_iff)
    with inv_nth [of j] show "\<exists>i < ?K. fetch i = Fetched True"
      by (auto simp: settled_uploaded)
  next
    assume "\<exists>i < ?K. fetch i = Fetched True"
    then obtain i where i: "i < ?K" "fetch i = Fetched True" by blast
    with up [of i] have "uploaded (?heap1 ! i)" by simp
    moreover from i have "?heap1 ! i \<in> set ?heap1" by (intro nth_mem) simp
    ultimately show "list_ex uploaded ?heap1" unfolding list_ex_iff by blast
  qed
  have alerted: "(\<exists>i < ?K. fetch i \<noteq> Fetched True) \<longrightarrow>
                 list_ex uploadFailed (mark_failed (filesToRetain ?heap1) ?heap1)"
  proof
    assume "\<exists>i < ?K. fetch i \<noteq> Fetched True"
    then obtain i where i: "i < ?K" "fetch i \<noteq> Fetched True" by blast
    let ?heap2 = "mark_failed (filesToRetain ?heap1) ?heap1"
    from i have "i \<in> set (filesToRetain ?heap1)" by (simp add: refs)
    with i mark_failed_heap [of "filesToRetain ?heap1" ?heap1]
    have "uploadFailed (?heap2 ! i)" and "i < length ?heap2" by simp_all
    then have "?heap2 ! i \<in> set ?heap2 \<and> uploadFailed (?heap2 ! i)" by simp
    then show "list_ex uploadFailed ?heap2" unfolding list_ex_iff by blast
  qed
  show ?thesis
    unfolding handleSubmit_Some [OF assms(2)] h1
    using files called alerted by simp
qed

theorem submit_reconciliation_witness:
  "run [FileChange ids [jpeg ''a.jpg'', jpeg ''README'', jpeg ''c.jpg'']] initial = Some three_files
   \<and> sort [2, 0, 1] = [0..<length (selectedFiles three_files)]
   \<and> map_option (\<lambda>res. (selectedFiles (console_after res), onUploadSuccess_called res,
                          alert_shown res))
        (handleSubmit second_fails [2, 0, 1] three_files) =
      Some ([(fresh ''xx'' ''README'')\<lparr>uploadFailed := True\<rparr>], True,
            Some ''Some files failed to upload. They have been retained in your selection.'')"
proof -
  have r: "run [FileChange ids [jpeg ''a.jpg'', jpeg ''README'', jpeg ''c.jpg'']] initial
             = Some three_files"
    by (simp only: run.simps step_select option.case)
  have s: "sort [2, 0, 1] = [0..<length (selectedFiles three_files)]"
    by (simp add: len3 upt_3)
  from submit_reconciliation [OF r s, of second_fails]
  obtain res where res: "handleSubmit second_fails [2, 0, 1] three_files = Some res"
    and files: "selectedFiles (console_after res) =
           map (\<lambda>i. (selectedFiles three_files ! i)\<lparr>uploadFailed := True\<rparr>)
             (filter (\<lambda>i. second_fails i \<noteq> Fetched True) [0..<length (selectedFiles three_files)])"
    and called: "onUploadSuccess_called res =
           (\<exists>i < length (selectedFiles three_files). second_fails i = Fetched True)"
    and shown: "(\<exists>i < length (selectedFiles three_files). second_fails i \<noteq> Fetched True) \<longrightarrow>
            alert_shown res =
              Some ''Some files failed to upload. They have been retained in your selection.''"
    by blast
  have f: "filter (\<lambda>i. second_fails i \<noteq> Fetched True) [0..<length (selectedFiles three_files)] = [1]"
    by (simp add: len3 upt_3 second_fails_def)
  have e1: "\<exists>i < length (selectedFiles three_files). second_fails i = Fetched True"
    by (intro exI [of _ 0]) (simp add: len3 second_fails_def)
  have e2: "\<exists>i < length (selectedFiles three_files). second_fails i \<noteq> Fetched True"
    by (intro exI [of _ 1]) (simp add: len3 second_fails_def)
  have "selectedFiles (console_after res) = [(fresh ''xx'' ''README'')\<lparr>uploadFailed := True\<rparr>]"
    unfolding files f by (simp add: three_files_def)
  with res called shown e1 e2 r s show ?thesis by simp
qed

text \<open>
  The message can also be shown when no request failed: a file that failed before keeps
  its \<open>uploadFailed\<close> flag while it is resubmitted, and the handler reads the flag from
  the captured array after the upload, also on the files it drops.
\<close>

lemma resubmission_success_alert:
  "map_option (\<lambda>res. (selectedFiles (console_after res), alert_shown res))
     (handleSubmit (\<lambda>i. Fetched True) [0] failed_readme) =
   Some ([], Some ''Some files failed to upload. They have been retained in your selection.'')"
  unfolding resubmit by simp

subsection \<open>The flags of the selected files\<close>

text \<open>What each handler keeps of a page.\<close>

lemma realloc_keeps:
  assumes "realloc i avs objs = (as, objs')"
      and "\<forall>(a, v) \<in> set avs. a < length objs \<and> P (objs ! a) \<and> P v"
  shows "length objs \<le> length objs'
       \<and> (\<forall>a < length objs. objs' ! a = objs ! a)
       \<and> (\<forall>a \<in> set as. a < length objs' \<and> P (objs' ! a))"
  using assms
proof (induction avs arbitrary: objs as objs')
  case Nil
  then show ?case by simp
next
  case (Cons av avs)
  obtain a v where av: "av = (a, v)" by (cases av)
  from Cons.prems(2) av have a: "a < length objs" "P (objs ! a)" "P v" by auto
  show ?case
  proof (cases "id_sf (objs ! a) = i")
    case True
    obtain as1 objs1 where r: "realloc i avs (objs @ [v]) = (as1, objs1)"
      by (cases "realloc i avs (objs @ [v])")
    with Cons.prems(1) av True have eq: "as = length objs # as1" "objs' = objs1" by auto
    have pre: "\<forall>(a, v') \<in> set avs. a < length (objs @ [v]) \<and> P ((objs @ [v]) ! a) \<and> P v'"
      using Cons.prems(2) by (auto simp: nth_append)
    from Cons.IH [OF r pre]
    have ih: "length (objs @ [v]) \<le> length objs1"
      "\<forall>a < length (objs @ [v]). objs1 ! a = (objs @ [v]) ! a"
      "\<forall>a \<in> set as1. a < length objs1 \<and> P (objs1 ! a)" by auto
    from ih(2) have new: "objs1 ! length objs = v" by simp
    from ih(2) have old: "\<forall>a < length objs. objs1 ! a = objs ! a" by (simp add: nth_append)
    from ih(1) ih(3) new old a(3) show ?thesis by (auto simp: eq)
  next
    case False
    obtain as1 objs1 where r: "realloc i avs objs = (as1, objs1)"
      by (cases "realloc i avs objs")
    with Cons.prems(1) av False have eq: "as = a # as1" "objs' = objs1" by auto
    have pre: "\<forall>(a, v') \<in> set avs. a < length objs \<and> P (objs ! a) \<and> P v'"
      using Cons.prems(2) by auto
    from Cons.IH [OF r pre] a show ?thesis by (auto simp: eq)
  qed
qed

lemma same_flags:
  assumes "map uploaded xs = map uploaded ys" and "map uploadFailed xs = map uploadFailed ys"
      and "\<forall>f \<in> set ys. flags Q f"
  shows "\<forall>f \<in> set xs. flags Q f"
proof
  fix f assume "f \<in> set xs"
  then obtain k where k: "k < length xs" "f = xs ! k" by (auto simp: in_set_conv_nth)
  have len: "length xs = length ys" using assms(1) by (metis length_map)
  have "uploaded (xs ! k) = uploaded (ys ! k)"
    using assms(1) k(1) len by (metis nth_map)
  moreover have "uploadFailed (xs ! k) = uploadFailed (ys ! k)"
    using assms(2) k(1) len by (metis nth_map)
  moreover have "flags Q (ys ! k)" using assms(3) k(1) len by simp
  ultimately show "flags Q f" by (simp add: flags_def k(2))
qed

lemma rename_ok:
  assumes "well_addressed p" and "objs_ok Q p"
  shows "well_addressed (page_rename i newName p) \<and> objs_ok Q (page_rename i newName p)
       \<and> in_flight (page_rename i newName p) = in_flight p"
proof (cases "handleRename i newName (console_of p)")
  case (Inl e)
  with assms show ?thesis by (simp add: page_rename_def)
next
  case (Inr cs)
  obtain c shown where cs: "cs = (c, shown)" by (cases cs)
  show ?thesis
  proof (cases shown)
    case (Some msg)
    with assms Inr cs show ?thesis by (simp add: page_rename_def)
  next
    case None
    obtain as objs where r: "realloc i (zip (selected p) (selectedFiles c)) (store p) = (as, objs)"
      by (cases "realloc i (zip (selected p) (selectedFiles c)) (store p)")
    have res: "page_rename i newName p = p\<lparr>store := objs, selected := as\<rparr>"
      by (simp add: page_rename_def Inr cs None r)
    have old: "\<forall>f \<in> set (files_of p). flags Q f"
      using assms(2) by (simp add: objs_ok_def files_of_def)
    have "map uploaded (selectedFiles c) = map uploaded (selectedFiles (console_of p))
        \<and> map uploadFailed (selectedFiles c) = map uploadFailed (selectedFiles (console_of p))"
      using handleRename_files [of i newName "console_of p" c shown] Inr cs by simp
    then have new: "\<forall>f \<in> set (selectedFiles c). flags Q f"
      using same_flags [of "selectedFiles c" "files_of p" Q] old by (simp add: console_of_def)
    have pre: "\<forall>(a, v) \<in> set (zip (selected p) (selectedFiles c)).
                 a < length (store p) \<and> flags Q (store p ! a) \<and> flags Q v"
    proof (clarify)
      fix a v assume "(a, v) \<in> set (zip (selected p) (selectedFiles c))"
      then have "a \<in> set (selected p)" and "v \<in> set (selectedFiles c)"
        by (auto dest: set_zip_leftD set_zip_rightD)
      with assms new show "a < length (store p) \<and> flags Q (store p ! a) \<and> flags Q v"
        by (simp add: well_addressed_def objs_ok_def)
    qed
    from realloc_keeps [OF r pre]
    have k: "length (store p) \<le> length objs"
      "\<forall>a \<in> set as. a < length objs \<and> flags Q (objs ! a)" by auto
    from k(1) have grow: "\<And>a. a < length (store p) \<Longrightarrow> a < length objs" by simp
    from k(2) grow assms(1) show ?thesis
      by (auto simp: res well_addressed_def objs_ok_def)
  qed
qed

lemma file_change_ok:
  assumes "well_addressed p" and "objs_ok Q p" and "Q False False"
  shows "well_addressed (page_file_change uuidv4 files p) \<and> objs_ok Q (page_file_change uuidv4 files p)
       \<and> in_flight (page_file_change uuidv4 files p) = in_flight p"
proof (cases "in_flight p \<noteq> None")
  case True
  with assms show ?thesis by (simp add: page_file_change_def)
next
  case False
  let ?added = "drop (length (selected p))
                  (selectedFiles (fst (handleFileChange uuidv4 files (console_of p))))"
  have res: "page_file_change uuidv4 files p =
      p\<lparr>store := store p @ ?added,
        selected := selected p @ [length (store p)..<length (store p) + length ?added]\<rparr>"
    using False by (simp add: page_file_change_def Let_def)
  have "\<forall>f \<in> set ?added. \<not> uploaded f \<and> \<not> uploadFailed f"
    using handleFileChange_files [of uuidv4 files "console_of p"]
    by (auto simp: console_of_def files_of_def)
  then have added: "\<forall>f \<in> set ?added. flags Q f"
    using assms(3) by (simp add: flags_def)
  have new: "\<forall>a \<in> {length (store p)..<length (store p) + length ?added}.
               flags Q ((store p @ ?added) ! a)"
  proof
    fix a assume a: "a \<in> {length (store p)..<length (store p) + length ?added}"
    then have "(store p @ ?added) ! a = ?added ! (a - length (store p))"
      and "a - length (store p) < length ?added"
      by (auto simp: nth_append)
    with added show "flags Q ((store p @ ?added) ! a)" by (metis nth_mem)
  qed
  from assms(1,2) new False show ?thesis
    unfolding res by (auto simp: well_addressed_def objs_ok_def nth_append)
qed

lemma delete_ok:
  assumes "well_addressed p" and "objs_ok Q p"
  shows "well_addressed (page_delete i p) \<and> objs_ok Q (page_delete i p)
       \<and> in_flight (page_delete i p) = in_flight p"
  using assms by (auto simp: page_delete_def well_addressed_def objs_ok_def)

lemma reset_ok:
  assumes "well_addressed p" and "objs_ok Q p"
  shows "well_addressed (page_reset p) \<and> objs_ok Q (page_reset p)
       \<and> in_flight (page_reset p) = in_flight p"
  using assms by (auto simp: page_reset_def well_addressed_def objs_ok_def)

lemma finish_ok:
  assumes "\<forall>a \<in> set (captured u). a < length (store p)"
  shows "well_addressed (page_finish u p) \<and> in_flight (page_finish u p) = None
       \<and> (\<forall>f \<in> set (files_of (page_finish u p)). \<not> uploaded f \<and> uploadFailed f)"
proof -
  let ?refs = "filter (\<lambda>a. \<not> uploaded (store p ! a)) (captured u)"
  have res: "page_finish u p =
      p\<lparr>store := mark_failed ?refs (store p), selected := ?refs, in_flight := None\<rparr>"
    by (simp add: page_finish_def Let_def)
  have m: "length (mark_failed ?refs (store p)) = length (store p)"
    "\<forall>j < length (store p). mark_failed ?refs (store p) ! j =
        (if j \<in> set ?refs then (store p ! j)\<lparr>uploadFailed := True\<rparr> else store p ! j)"
    using mark_failed_heap [of ?refs "store p"] by auto
  from assms m show ?thesis
    unfolding res by (auto simp: well_addressed_def files_of_def)
qed

lemma submit_ok:
  assumes "well_addressed p"
  shows "well_addressed (page_submit p)
       \<and> (in_flight (page_submit p) = None \<longrightarrow> in_flight p = None
            \<and> (\<forall>f \<in> set (files_of (page_submit p)). \<not> uploaded f \<and> uploadFailed f))
       \<and> (in_flight p \<noteq> None \<longrightarrow> page_submit p = p)"
proof (cases "in_flight p \<noteq> None")
  case True
  then have "page_submit p = p" by (simp add: page_submit_def)
  with assms True show ?thesis by auto
next
  case False
  let ?u = "\<lparr>captured = selected p, pending = [0..<length (selected p)]\<rparr>"
  let ?p1 = "p\<lparr>progressCount := int (length (selected p)), in_flight := Some ?u\<rparr>"
  show ?thesis
  proof (cases "selected p = []")
    case True
    have res: "page_submit p = page_finish ?u ?p1"
      using False True by (simp add: page_submit_def Let_def)
    have "\<forall>a \<in> set (captured ?u). a < length (store ?p1)" using True by simp
    from finish_ok [OF this] False show ?thesis by (simp add: res)
  next
    case nonempty: False
    have res: "page_submit p = ?p1"
      using False nonempty by (simp add: page_submit_def Let_def)
    from assms False show ?thesis by (auto simp: res well_addressed_def)
  qed
qed

lemma settle_ok:
  assumes "well_addressed p"
  shows "well_addressed (page_settle k r p)
       \<and> (in_flight p = None \<longrightarrow> page_settle k r p = p)
       \<and> (in_flight p \<noteq> None \<and> in_flight (page_settle k r p) = None \<longrightarrow>
            (\<forall>f \<in> set (files_of (page_settle k r p)). \<not> uploaded f \<and> uploadFailed f))"
proof (cases "in_flight p")
  case None
  with assms show ?thesis by (simp add: page_settle_def)
next
  case (Some u)
  show ?thesis
  proof (cases "k \<in> set (pending u)")
    case False
    with Some assms show ?thesis by (simp add: page_settle_def)
  next
    case True
    let ?s = "settle (captured u ! k, r) (store p, progressCount p)"
    let ?u' = "u\<lparr>pending := removeAll k (pending u)\<rparr>"
    let ?p1 = "p\<lparr>store := fst ?s, progressCount := snd ?s, in_flight := Some ?u'\<rparr>"
    have len: "length (fst ?s) = length (store p)" by (rule settle_length)
    have cap: "\<forall>a \<in> set (captured ?u'). a < length (store ?p1)"
      using assms Some by (simp add: well_addressed_def len)
    show ?thesis
    proof (cases "removeAll k (pending u) = []")
      case True
      have res: "page_settle k r p = page_finish ?u' ?p1"
        using Some \<open>k \<in> set (pending u)\<close> True by (simp add: page_settle_def Let_def)
      from finish_ok [OF cap] Some show ?thesis by (simp add: res)
    next
      case False
      have res: "page_settle k r p = ?p1"
        using Some \<open>k \<in> set (pending u)\<close> False by (simp add: page_settle_def Let_def)
      from assms Some show ?thesis by (auto simp: res well_addressed_def len)
    qed
  qed
qed

lemma objs_ok_files:
  "objs_ok Q p = (\<forall>f \<in> set (files_of p). Q (uploaded f) (uploadFailed f))"
  by (simp add: objs_ok_def files_of_def flags_def)

lemma always_flags: "objs_ok (\<lambda>u f. True) p"
  by (simp add: objs_ok_def flags_def)

lemma file_change_wf:
  "well_addressed p \<Longrightarrow> well_addressed (page_file_change uuidv4 files p)
     \<and> in_flight (page_file_change uuidv4 files p) = in_flight p"
  using file_change_ok [of p "\<lambda>u f. True" uuidv4 files] always_flags [of p] by blast

lemma rename_wf:
  "well_addressed p \<Longrightarrow> well_addressed (page_rename i newName p) \<and> in_flight (page_rename i newName p) = in_flight p"
  using rename_ok [of p "\<lambda>u f. True" i newName] always_flags [of p] by blast

lemma delete_wf:
  "well_addressed p \<Longrightarrow> well_addressed (page_delete i p) \<and> in_flight (page_delete i p) = in_flight p"
  using delete_ok [of p "\<lambda>u f. True" i] always_flags [of p] by blast

lemma reset_wf:
  "well_addressed p \<Longrightarrow> well_addressed (page_reset p) \<and> in_flight (page_reset p) = in_flight p"
  using reset_ok [of p "\<lambda>u f. True"] always_flags [of p] by blast

lemma act_wf: "well_addressed p \<Longrightarrow> well_addressed (act a p)"
proof (cases a)
  case (OnFileChange uuidv4 files)
  assume "well_addressed p"
  then show ?thesis unfolding OnFileChange act.simps using file_change_wf by blast
next
  case (OnRename i newName)
  assume "well_addressed p"
  then show ?thesis unfolding OnRename act.simps using rename_wf by blast
next
  case (OnDelete i)
  assume "well_addressed p"
  then show ?thesis unfolding OnDelete act.simps using delete_wf by blast
next
  case OnReset
  assume "well_addressed p"
  then show ?thesis unfolding OnReset act.simps using reset_wf by blast
next
  case OnSubmit
  assume "well_addressed p"
  then show ?thesis unfolding OnSubmit act.simps using submit_ok by blast
next
  case (OnSettle k r)
  assume "well_addressed p"
  then show ?thesis unfolding OnSettle act.simps using settle_ok by blast
qed

lemma act_completes:
  assumes "well_addressed p" and "in_flight p \<noteq> None" and "in_flight (act a p) = None"
  shows "\<forall>f \<in> set (files_of (act a p)). \<not> uploaded f \<and> uploadFailed f"
proof (cases a)
  case (OnFileChange uuidv4 files)
  from assms(2,3) file_change_wf [OF assms(1), of uuidv4 files] show ?thesis
    unfolding OnFileChange act.simps by metis
next
  case (OnRename i newName)
  from assms(2,3) rename_wf [OF assms(1), of i newName] show ?thesis
    unfolding OnRename act.simps by metis
next
  case (OnDelete i)
  from assms(2,3) delete_wf [OF assms(1), of i] show ?thesis
    unfolding OnDelete act.simps by metis
next
  case OnReset
  from assms(2,3) reset_wf [OF assms(1)] show ?thesis
    unfolding OnReset act.simps by metis
next
  case OnSubmit
  from assms(2,3) submit_ok [OF assms(1)] show ?thesis
    unfolding OnSubmit act.simps by metis
next
  case (OnSettle k r)
  from assms(2,3) settle_ok [OF assms(1), of k r] show ?thesis
    unfolding OnSettle act.simps by metis
qed

lemma act_idle_ok:
  assumes "well_addressed p" and "idle_ok p"
  shows "idle_ok (act a p)"
proof (cases "in_flight p = None")
  case False
  from act_completes [OF assms(1) False, of a] show ?thesis
    unfolding idle_ok_def objs_ok_files by blast
next
  case True
  with assms(2) have ok: "objs_ok (\<lambda>u f. \<not> u) p" unfolding idle_ok_def by blast
  show ?thesis
  proof (cases a)
    case (OnFileChange uuidv4 files)
    from file_change_ok [OF assms(1) ok, of uuidv4 files] show ?thesis
      unfolding OnFileChange act.simps idle_ok_def by blast
  next
    case (OnRename i newName)
    from rename_ok [OF assms(1) ok, of i newName] show ?thesis
      unfolding OnRename act.simps idle_ok_def by blast
  next
    case (OnDelete i)
    from delete_ok [OF assms(1) ok, of i] show ?thesis
      unfolding OnDelete act.simps idle_ok_def by blast
  next
    case OnReset
    from reset_ok [OF assms(1) ok] show ?thesis
      unfolding OnReset act.simps idle_ok_def by blast
  next
    case OnSubmit
    from submit_ok [OF assms(1)] show ?thesis
      unfolding OnSubmit act.simps idle_ok_def objs_ok_files by blast
  next
    case (OnSettle k r)
    from settle_ok [OF assms(1), of k r] True have "page_settle k r p = p" by blast
    with assms(2) show ?thesis unfolding OnSettle act.simps by simp
  qed
qed

lemma act_unsubmitted:
  assumes "well_addressed p" and "unsubmitted p" and "\<not> is_OnSubmit a"
  shows "unsubmitted (act a p)"
proof -
  from assms(2) have idle: "in_flight p = None" and ok: "objs_ok (\<lambda>u f. \<not> u \<and> \<not> f) p"
    unfolding unsubmitted_def by blast+
  show ?thesis
  proof (cases a)
    case (OnFileChange uuidv4 files)
    from file_change_ok [OF assms(1) ok, of uuidv4 files] idle show ?thesis
      unfolding OnFileChange act.simps unsubmitted_def by metis
  next
    case (OnRename i newName)
    from rename_ok [OF assms(1) ok, of i newName] idle show ?thesis
      unfolding OnRename act.simps unsubmitted_def by metis
  next
    case (OnDelete i)
    from delete_ok [OF assms(1) ok, of i] idle show ?thesis
      unfolding OnDelete act.simps unsubmitted_def by metis
  next
    case OnReset
    from reset_ok [OF assms(1) ok] idle show ?thesis
      unfolding OnReset act.simps unsubmitted_def by metis
  next
    case OnSubmit
    with assms(3) show ?thesis by simp
  next
    case (OnSettle k r)
    from settle_ok [OF assms(1), of k r] idle have "page_settle k r p = p" by blast
    with assms(2) show ?thesis unfolding OnSettle act.simps by simp
  qed
qed

lemma go_snoc: "go (as @ [a]) p = act a (go as p)"
  by (induction as arbitrary: p) simp_all

lemma go_wf: "well_addressed p \<Longrightarrow> well_addressed (go as p)"
  by (induction as arbitrary: p) (simp_all add: act_wf)

lemma go_idle_ok: "well_addressed p \<Longrightarrow> idle_ok p \<Longrightarrow> idle_ok (go as p)"
  by (induction as arbitrary: p) (simp_all add: act_wf act_idle_ok)

lemma go_unsubmitted:
  "well_addressed p \<Longrightarrow> unsubmitted p \<Longrightarrow> \<not> list_ex is_OnSubmit as \<Longrightarrow> unsubmitted (go as p)"
  by (induction as arbitrary: p) (simp_all add: act_wf act_unsubmitted)

lemma start_page_ok: "well_addressed start_page" "idle_ok start_page" "unsubmitted start_page"
  by (simp_all add: well_addressed_def idle_ok_def unsubmitted_def objs_ok_def start_page_def)

text \<open>
  C3, amended.  For every file of the selected-file state: before any submission the
  flags \<open>uploaded\<close> and \<open>uploadFailed\<close> are both false; whenever no submission is in
  flight (so after any submission has completed, a resubmission of failed files
  included, until the next one starts) no file has both flags true; and when a
  submission completes, every file of the state has \<open>uploaded\<close> false and
  \<open>uploadFailed\<close> true.  This holds for every sequence of actions of the user and of
  requests settling, in any order and with any outcomes.
\<close>

theorem idle_flags_exclusive:
  "(\<not> list_ex is_OnSubmit as \<longrightarrow>
      (\<forall>f \<in> set (files_of (go as start_page)). \<not> uploaded f \<and> \<not> uploadFailed f))
   \<and> (in_flight (go as start_page) = None \<longrightarrow>
      (\<forall>f \<in> set (files_of (go as start_page)). \<not> (uploaded f \<and> uploadFailed f)))
   \<and> (in_flight (go as start_page) \<noteq> None \<and> in_flight (go (as @ [a]) start_page) = None \<longrightarrow>
      (\<forall>f \<in> set (files_of (go (as @ [a]) start_page)). \<not> uploaded f \<and> uploadFailed f))"
proof (intro conjI impI)
  assume "\<not> list_ex is_OnSubmit as"
  from go_unsubmitted [OF start_page_ok(1) start_page_ok(3) this]
  show "\<forall>f \<in> set (files_of (go as start_page)). \<not> uploaded f \<and> \<not> uploadFailed f"
    by (simp add: unsubmitted_def objs_ok_files)
next
  assume "in_flight (go as start_page) = None"
  with go_idle_ok [OF start_page_ok(1) start_page_ok(2), of as]
  show "\<forall>f \<in> set (files_of (go as start_page)). \<not> (uploaded f \<and> uploadFailed f)"
    by (simp add: idle_ok_def objs_ok_files)
next
  assume "in_flight (go as start_page) \<noteq> None \<and> in_flight (go (as @ [a]) start_page) = None"
  then have "in_flight (go as start_page) \<noteq> None" "in_flight (act a (go as start_page)) = None"
    by (simp_all add: go_snoc)
  from act_completes [OF go_wf [OF start_page_ok(1)] this]
  show "\<forall>f \<in> set (files_of (go (as @ [a]) start_page)). \<not> uploaded f \<and> uploadFailed f"
    by (simp add: go_snoc)
qed

text \<open>The first round and the resubmission, evaluated.\<close>

lemma act_two_files:
  "act two_files start_page =
     \<lparr>store = [fresh ''x'' ''a.jpg'', fresh ''xx'' ''b.jpg''], selected = [0, 1],
      in_flight = None, progressCount = 0\<rparr>"
  by (simp add: two_files_def page_file_change_def start_page_def console_of_def files_of_def
        handleFileChange_def MAX_FILE_COUNT_def MAX_FILE_SIZE_def jpeg_def fresh_def ids_def)

lemma submit_two:
  "page_submit \<lparr>store = objs, selected = [0, 1], in_flight = None, progressCount = c\<rparr> =
     \<lparr>store = objs, selected = [0, 1],
      in_flight = Some \<lparr>captured = [0, 1], pending = [0, 1]\<rparr>, progressCount = 2\<rparr>"
  by (simp add: page_submit_def Let_def)

lemma settle_first:
  "page_settle 0 r
     \<lparr>store = [f, g], selected = [0, 1],
      in_flight = Some \<lparr>captured = [0, 1], pending = [0, 1]\<rparr>, progressCount = 2\<rparr> =
     \<lparr>store = [settled r f, g], selected = [0, 1],
      in_flight = Some \<lparr>captured = [0, 1], pending = [1]\<rparr>, progressCount = 1\<rparr>"
  by (cases r) (simp_all add: page_settle_def Let_def settle_def settled_def)

lemma settle_second_thrown:
  "page_settle 1 Threw
     \<lparr>store = [f, g], selected = [0, 1],
      in_flight = Some \<lparr>captured = [0, 1], pending = [1]\<rparr>, progressCount = 1\<rparr> =
     page_finish \<lparr>captured = [0, 1], pending = []\<rparr>
       \<lparr>store = [f, g], selected = [0, 1],
        in_flight = Some \<lparr>captured = [0, 1], pending = []\<rparr>, progressCount = 0\<rparr>"
  by (simp add: page_settle_def Let_def settle_def)

lemma finish_both_failed:
  "\<not> uploaded f \<Longrightarrow> \<not> uploaded g \<Longrightarrow>
   page_finish \<lparr>captured = [0, 1], pending = []\<rparr>
       \<lparr>store = [f, g], selected = [0, 1],
        in_flight = Some \<lparr>captured = [0, 1], pending = []\<rparr>, progressCount = 0\<rparr> =
     \<lparr>store = [failed f, failed g], selected = [0, 1], in_flight = None, progressCount = 0\<rparr>"
  by (simp add: page_finish_def Let_def mark_failed_def failed_def)


lemma go_append: "go (as @ bs) p = go bs (go as p)"
  by (induction as arbitrary: p) simp_all

lemma not_uploaded_fresh: "\<not> uploaded (fresh i n)"
  by (simp add: fresh_def)

lemma go_selected:
  "go [two_files] start_page =
     \<lparr>store = [fresh ''x'' ''a.jpg'', fresh ''xx'' ''b.jpg''], selected = [0, 1],
      in_flight = None, progressCount = 0\<rparr>"
  by (simp only: go.simps act_two_files)

lemma settled_Threw: "settled Threw f = f"
  by (simp add: settled_def)

lemma go_one_settled:
  "go [two_files, OnSubmit, OnSettle 0 Threw] start_page =
     \<lparr>store = [fresh ''x'' ''a.jpg'', fresh ''xx'' ''b.jpg''], selected = [0, 1],
      in_flight = Some \<lparr>captured = [0, 1], pending = [1]\<rparr>, progressCount = 1\<rparr>"
  by (simp only: go.simps act.simps act_two_files submit_two settle_first settled_Threw)

lemma go_first_round: "go first_round start_page = both_failed"
  unfolding first_round_def both_failed_def
  by (simp only: go.simps act.simps act_two_files submit_two settle_first settled_Threw
        settle_second_thrown finish_both_failed [OF not_uploaded_fresh not_uploaded_fresh])

lemma go_resubmitting:
  "go (first_round @ [OnSubmit, OnSettle 0 (Fetched True)]) start_page =
     \<lparr>store = [settled (Fetched True) (failed (fresh ''x'' ''a.jpg'')),
               failed (fresh ''xx'' ''b.jpg'')],
      selected = [0, 1],
      in_flight = Some \<lparr>captured = [0, 1], pending = [1]\<rparr>, progressCount = 1\<rparr>"
  by (simp only: go_append go_first_round both_failed_def go.simps act.simps submit_two
        settle_first)

theorem idle_flags_exclusive_witness:
  "\<not> list_ex is_OnSubmit [two_files]
   \<and> list_all (\<lambda>f. \<not> uploaded f \<and> \<not> uploadFailed f) (files_of (go [two_files] start_page))
   \<and> in_flight (go first_round start_page) = None
   \<and> list_all (\<lambda>f. \<not> (uploaded f \<and> uploadFailed f)) (files_of (go first_round start_page))
   \<and> in_flight (go [two_files, OnSubmit, OnSettle 0 Threw] start_page) \<noteq> None
   \<and> in_flight (go ([two_files, OnSubmit, OnSettle 0 Threw] @ [OnSettle 1 Threw]) start_page) = None
   \<and> list_all (\<lambda>f. \<not> uploaded f \<and> uploadFailed f)
        (files_of (go ([two_files, OnSubmit, OnSettle 0 Threw] @ [OnSettle 1 Threw]) start_page))"
proof -
  have h1: "\<not> list_ex is_OnSubmit [two_files]"
    by (simp add: two_files_def)
  have h2: "in_flight (go first_round start_page) = None"
    by (simp add: go_first_round both_failed_def)
  have h3: "in_flight (go [two_files, OnSubmit, OnSettle 0 Threw] start_page) \<noteq> None"
    unfolding go_one_settled by simp
  have "[two_files, OnSubmit, OnSettle 0 Threw] @ [OnSettle 1 Threw] = first_round"
    by (simp add: first_round_def)
  with h2
  have h4: "in_flight (go ([two_files, OnSubmit, OnSettle 0 Threw] @ [OnSettle 1 Threw])
              start_page) = None"
    by (simp only:)
  from h1 idle_flags_exclusive [of "[two_files]"]
  have c1: "list_all (\<lambda>f. \<not> uploaded f \<and> \<not> uploadFailed f)
              (files_of (go [two_files] start_page))"
    unfolding list_all_iff by blast
  from h2 idle_flags_exclusive [of first_round]
  have c2: "list_all (\<lambda>f. \<not> (uploaded f \<and> uploadFailed f))
              (files_of (go first_round start_page))"
    unfolding list_all_iff by blast
  from h3 h4 idle_flags_exclusive [of "[two_files, OnSubmit, OnSettle 0 Threw]" "OnSettle 1 Threw"]
  have c3: "list_all (\<lambda>f. \<not> uploaded f \<and> uploadFailed f)
        (files_of (go ([two_files, OnSubmit, OnSettle 0 Threw] @ [OnSettle 1 Threw]) start_page))"
    unfolding list_all_iff by blast
  from h1 c1 h2 c2 h3 h4 c3 show ?thesis by blast
qed

text \<open>
  C3, as the claim states it, fails.  Two files are submitted and both fail; that
  submission has completed.  They are submitted again, and the first request returns ok
  while the second is still open: the first file is in the selected-file state with
  \<open>uploaded\<close> and \<open>uploadFailed\<close> both true.
\<close>

theorem flags_in_flight_counterexample:
  "in_flight (go first_round start_page) = None
   \<and> files_of (go (first_round @ [OnSubmit, OnSettle 0 (Fetched True)]) start_page) =
       [\<lparr>id_sf = ''x'', file_sf = jpeg ''a.jpg'', uploaded = True, uploadFailed = True\<rparr>,
        \<lparr>id_sf = ''xx'', file_sf = jpeg ''b.jpg'', uploaded = False, uploadFailed = True\<rparr>]"
proof -
  have a: "in_flight (go first_round start_page) = None"
    by (simp add: go_first_round both_failed_def)
  have b: "files_of (go (first_round @ [OnSubmit, OnSettle 0 (Fetched True)]) start_page) =
       [\<lparr>id_sf = ''x'', file_sf = jpeg ''a.jpg'', uploaded = True, uploadFailed = True\<rparr>,
        \<lparr>id_sf = ''xx'', file_sf = jpeg ''b.jpg'', uploaded = False, uploadFailed = True\<rparr>]"
    unfolding go_resubmitting by (simp add: files_of_def settled_def failed_def fresh_def)
  from a b show ?thesis by blast
qed

end
